theory Spec2Isabelle
  imports Complex_Main "HOL-Library.AList" "HOL-Library.Sublist" "HOL-Library.Log_Nat"
begin

section \<open>Data model of the gamified session (app-1.py)\<close>

text \<open>
  The Streamlit application keeps all of its state in \<^verbatim>\<open>st.session_state\<close>. The
  fields the reward engine reads or writes are collected in the record \<open>session\<close>.
  Python integers are unbounded and are modelled by \<open>int\<close>. A \<^verbatim>\<open>datetime.date\<close> is
  modelled by its day number (the proleptic ordinal), so that \<^verbatim>\<open>(today - last).days\<close>
  is integer subtraction; \<^verbatim>\<open>datetime.utcnow().date()\<close> is the parameter \<open>today\<close> of
  every operation that reads the clock.

  The quiz accuracy is a Python float, an IEEE 754 binary64 number, computed as
  \<^verbatim>\<open>100.0 * correct / max(1, total)\<close>; it is stored, compared with \<^verbatim>\<open>80.0\<close> and with
  \<^verbatim>\<open>100\<close>, and printed. It is modelled by the type \<open>pyfloat\<close> below, with the rounding
  of every operation written out.
\<close>

type_synonym date = int

datatype py_error = ZeroDivisionError | TypeError | IndexError | OverflowError

section \<open>Python floats\<close>

text \<open>
  A float is a finite binary64 value, kept as the rational number it denotes, or one of
  the two infinities. The expressions of the program cannot produce a NaN (no infinity
  is ever divided by an infinity or multiplied by zero) nor a negative zero (a quotient
  that rounds to zero has the numerator \<^verbatim>\<open>100.0 * 0\<close>), so neither is represented.

  \<open>round_half_even\<close> rounds a rational number to the nearest integer, a tie to the even
  one. \<open>ilog2 a\<close> is the binary exponent of a positive rational: the \<open>e\<close> with
  \<open>2^e \<le> a < 2^(e+1)\<close>, computed from the bit lengths of the numerator and the
  denominator. \<open>round64 x\<close> is the binary64 value nearest to \<open>x\<close>: the significand has 53
  bits, so the spacing of the values around \<open>x\<close> is \<open>2^(e-52)\<close>, and never less than the
  subnormal spacing \<open>2^(-1074)\<close>; a result of \<open>2^1024\<close> or more is an infinity.
\<close>

datatype pyfloat = Fl rat | PInf | NInf

definition round_half_even :: "rat \<Rightarrow> int" where
  "round_half_even y =
     (let f = \<lfloor>y\<rfloor>; d = y - of_int f
      in if d < 1 / 2 then f
         else if 1 / 2 < d then f + 1
         else if even f then f else f + 1)"

definition ilog2 :: "rat \<Rightarrow> int" where
  "ilog2 a =
     (let (p, q) = quotient_of a; d = bitlen p - bitlen q
      in if 2 powi d \<le> a then d else d - 1)"

definition round64 :: "rat \<Rightarrow> pyfloat" where
  "round64 x =
     (if x = 0 then Fl 0
      else
        let a = \<bar>x\<bar>;
            e = ilog2 a;
            q = 2 powi (max (e - 52) (- 1074));
            r = of_int (round_half_even (a / q)) * q
        in if 2 ^ 1024 \<le> r then (if 0 < x then PInf else NInf)
           else Fl (if 0 < x then r else - r))"

text \<open>
  The conversion of an integer operand to a float (\<^verbatim>\<open>PyLong_AsDouble\<close>) rounds in the same
  way and raises \<^verbatim>\<open>OverflowError\<close> where the rounded value is not finite. The product and
  the quotient of floats are the rounded exact results; a product that is too large is an
  infinity, without an exception, and a division by zero raises. The divisor of the only
  division in the program is a converted integer, hence finite. \<open>float_ge x y\<close> is the
  comparison \<^verbatim>\<open>x >= y\<close> with a finite \<open>y\<close>.
\<close>

definition float_of_int :: "int \<Rightarrow> py_error + rat" where
  "float_of_int n =
     (case round64 (of_int n) of
        Fl v \<Rightarrow> Inr v
      | PInf \<Rightarrow> Inl OverflowError
      | NInf \<Rightarrow> Inl OverflowError)"

definition float_mul :: "rat \<Rightarrow> rat \<Rightarrow> pyfloat" where
  "float_mul a b = round64 (a * b)"

definition py_truediv :: "pyfloat \<Rightarrow> rat \<Rightarrow> py_error + pyfloat" where
  "py_truediv a b =
     (if b = 0 then Inl ZeroDivisionError
      else Inr (case a of
                  Fl v \<Rightarrow> round64 (v / b)
                | PInf \<Rightarrow> if 0 < b then PInf else NInf
                | NInf \<Rightarrow> if 0 < b then NInf else PInf))"

definition float_ge :: "pyfloat \<Rightarrow> rat \<Rightarrow> bool" where
  "float_ge x y = (case x of Fl v \<Rightarrow> y \<le> v | PInf \<Rightarrow> True | NInf \<Rightarrow> False)"

section \<open>The session\<close>

datatype anim = Idle | Fwd | Back | Celebrate

record quests_daily =
  daily_counts :: "(string \<times> int) list"
  reset_date :: date

record quests_weekly =
  weekly_quizzes :: int
  weekly_80plus :: int
  week_start :: "date option"

record chapter_stats =
  p_score :: int
  p_total :: int

record history_entry =
  h_date :: string
  h_subject :: string
  h_chapter :: string
  h_score :: int
  h_total :: int
  h_xp :: int

record answer_entry =
  sel :: int
  ok :: bool

record session =
  subject :: string
  "chapter" :: string
  quiz_score :: int
  quiz_total :: int
  quiz_count :: int
  progress :: "(string \<times> (string \<times> chapter_stats) list) list"
  history :: "history_entry list"
  game_credits :: int
  total_xp :: int
  coins :: int
  sudoku_wins :: int
  sudoku_games_played :: int
  sudoku_started :: bool
  daily_streak :: int
  last_active_date :: "date option"
  correct_streak :: int
  correct_total :: int
  last_quiz_pct :: pyfloat
  quests_daily_progress :: quests_daily
  quests_weekly_progress :: quests_weekly
  quiz_map_position :: int
  quiz_map_total_questions :: int
  quiz_map_correct :: int
  quiz_map_qindex :: int
  quiz_map_anim :: anim
  quiz_map_done :: bool
  quiz_map_answers :: "(int \<times> answer_entry) list"
  ach :: "string set"

text \<open>
  \<open>ach s\<close> is the set of achievement titles \<open>t\<close> for which the session holds a true
  flag under the key \<^verbatim>\<open>f"ach_{t}"\<close>. \<open>dict_get\<close> is \<^verbatim>\<open>d.get(k, default)\<close> on a
  dictionary kept as an association list; \<open>AList.update\<close> is \<^verbatim>\<open>d[k] = v\<close>.
\<close>

definition dict_get :: "('k \<times> 'v) list \<Rightarrow> 'k \<Rightarrow> 'v \<Rightarrow> 'v" where
  "dict_get d k dflt = (case map_of d k of None \<Rightarrow> dflt | Some v \<Rightarrow> v)"

text \<open>The defaults installed by \<^verbatim>\<open>init_state()\<close> on a fresh session started on day \<open>today\<close>.\<close>

definition init_state :: "date \<Rightarrow> session" where
  "init_state today =
     \<lparr> subject = '''', chapter = '''', quiz_score = 0, quiz_total = 0, quiz_count = 0,
       progress = [], history = [], game_credits = 3, total_xp = 0, coins = 0,
       sudoku_wins = 0, sudoku_games_played = 0, sudoku_started = False,
       daily_streak = 0, last_active_date = None,
       correct_streak = 0, correct_total = 0, last_quiz_pct = Fl 0,
       quests_daily_progress =
         \<lparr> daily_counts = [(''daily_quizzes'', 0), (''daily_correct'', 0)], reset_date = today \<rparr>,
       quests_weekly_progress =
         \<lparr> weekly_quizzes = 0, weekly_80plus = 0, week_start = Some today \<rparr>,
       quiz_map_position = 0, quiz_map_total_questions = 0, quiz_map_correct = 0,
       quiz_map_qindex = 0, quiz_map_anim = Idle, quiz_map_done = False,
       quiz_map_answers = [], ach = {} \<rparr>"

section \<open>Streak maintenance and quest counters\<close>

definition touch_daily_streak :: "date \<Rightarrow> session \<Rightarrow> session" where
  "touch_daily_streak today s =
     (let s1 = (case last_active_date s of
                  None \<Rightarrow> s\<lparr>daily_streak := 1\<rparr>
                | Some last_day \<Rightarrow>
                    (let diff = today - last_day in
                     if diff = 1 then s\<lparr>daily_streak := daily_streak s + 1\<rparr>
                     else if diff > 1 then s\<lparr>daily_streak := 1\<rparr>
                     else s))
      in s1\<lparr>last_active_date := Some today\<rparr>)"

text \<open>
  \<^verbatim>\<open>update_quests(progress_key, inc, is_80plus)\<close>. The daily dictionary holds the
  counters and the date under \<^verbatim>\<open>"reset_date"\<close>; the model keeps the date in its own
  field, so the one key under which \<^verbatim>\<open>get(progress_key, 0) + inc\<close> would add a number to
  a date is the branch that raises \<^verbatim>\<open>TypeError\<close>.
\<close>

definition update_quests :: "date \<Rightarrow> string \<Rightarrow> int \<Rightarrow> bool \<Rightarrow> session \<Rightarrow> py_error + session" where
  "update_quests today progress_key inc is_80plus s =
     (let d0 = quests_daily_progress s;
          d1 = (if reset_date d0 \<noteq> today
                then \<lparr> daily_counts = [(''daily_quizzes'', 0), (''daily_correct'', 0)],
                       reset_date = today \<rparr>
                else d0)
      in if progress_key = ''reset_date'' then Inl TypeError
         else
           let d2 = d1\<lparr>daily_counts :=
                        AList.update progress_key
                          (dict_get (daily_counts d1) progress_key 0 + inc) (daily_counts d1)\<rparr>;
               w0 = quests_weekly_progress s;
               w1 = (if (case week_start w0 of None \<Rightarrow> True | Some ws \<Rightarrow> today - ws \<ge> 7)
                     then \<lparr> weekly_quizzes = 0, weekly_80plus = 0, week_start = Some today \<rparr>
                     else w0);
               w2 = (if progress_key = ''daily_quizzes''
                     then (let w = w1\<lparr>weekly_quizzes := weekly_quizzes w1 + inc\<rparr>
                           in if is_80plus then w\<lparr>weekly_80plus := weekly_80plus w + 1\<rparr> else w)
                     else w1)
           in Inr (s\<lparr>quests_daily_progress := d2, quests_weekly_progress := w2\<rparr>))"

section \<open>The quiz adventure: one answer\<close>

definition apply_answer_and_move :: "date \<Rightarrow> bool \<Rightarrow> int \<Rightarrow> session \<Rightarrow> py_error + session" where
  "apply_answer_and_move today is_correct qidx s =
     (if is_correct then
        (case update_quests today ''daily_correct'' 1 False
                (s\<lparr>quiz_map_position :=
                      min (quiz_map_position s + 1) (quiz_map_total_questions s + 1),
                    quiz_map_correct := quiz_map_correct s + 1,
                    quiz_map_anim := Fwd,
                    total_xp := total_xp s + 5,
                    correct_streak := correct_streak s + 1,
                    correct_total := correct_total s + 1\<rparr>) of
           Inl e \<Rightarrow> Inl e
         | Inr s1 \<Rightarrow> Inr (s1\<lparr>quiz_map_qindex := qidx + 1\<rparr>))
      else
        Inr (s\<lparr>quiz_map_position := max 0 (quiz_map_position s - 1),
               quiz_map_anim := Back,
               correct_streak := 0,
               quiz_map_qindex := qidx + 1\<rparr>))"

text \<open>
  A sequence of submissions, each with the day on which it happens, its correctness and
  the question index the handler passes. An exception ends the run.
\<close>

fun run_answers :: "(date \<times> bool \<times> int) list \<Rightarrow> session \<Rightarrow> py_error + session" where
  "run_answers [] s = Inr s"
| "run_answers ((today, is_correct, qidx) # rest) s =
     (case apply_answer_and_move today is_correct qidx s of
        Inl e \<Rightarrow> Inl e
      | Inr s' \<Rightarrow> run_answers rest s')"

section \<open>Ranks, levels, achievements and quest rewards\<close>

definition RANKS :: "(int \<times> string) list" where
  "RANKS = [(0, ''Rookie''), (100, ''Apprentice''), (300, ''Scholar''),
            (700, ''Mentor''), (1200, ''Master''), (2000, ''Grandmaster'')]"

definition LEVEL_XP :: "int list" where
  "LEVEL_XP = [0, 100, 250, 450, 700, 1000, 1400, 1850, 2350, 2900, 3500, 4200]"

definition compute_rank :: "int \<Rightarrow> string" where
  "compute_rank xp =
     fold (\<lambda>(threshold, name) r. if xp \<ge> threshold then name else r) RANKS ''Rookie''"

definition compute_level :: "int \<Rightarrow> int" where
  "compute_level xp =
     min (fold (\<lambda>(i, cxp) lvl. if xp \<ge> cxp then int i + 1 else lvl) (enumerate 0 LEVEL_XP) 1)
         (int (length LEVEL_XP))"

definition format_rank_level :: "session \<Rightarrow> string \<times> int" where
  "format_rank_level s = (compute_rank (total_xp s), compute_level (total_xp s))"

text \<open>
  The achievement catalogue: title, description, condition over the session, XP reward.
  The emoji of each entry is only printed and is left out.
\<close>

definition ACHIEVEMENTS :: "(string \<times> string \<times> (session \<Rightarrow> bool) \<times> int) list" where
  "ACHIEVEMENTS =
     [(''First Steps'', ''Complete 1 quiz'', \<lambda>ss. quiz_count ss \<ge> 1, 25),
      (''Warming Up'', ''Reach 5 quizzes'', \<lambda>ss. quiz_count ss \<ge> 5, 50),
      (''Quiz Pro'', ''Reach 20 quizzes'', \<lambda>ss. quiz_count ss \<ge> 20, 100),
      (''Hot Streak'', ''Daily streak 5+'', \<lambda>ss. daily_streak ss \<ge> 5, 50),
      (''Flawless'', ''Score 100% in a quiz'', \<lambda>ss. last_quiz_pct ss = Fl 100, 50),
      (''Marathon'', ''Answer 50 correct in total'', \<lambda>ss. correct_total ss \<ge> 50, 75)]"

text \<open>
  The loop of \<^verbatim>\<open>check_achievements\<close> over a catalogue; \<open>newly\<close> collects the title and
  the reward of each achievement unlocked by this call (the source formats them into one
  display string each).
\<close>

fun achievements_loop ::
  "(string \<times> string \<times> (session \<Rightarrow> bool) \<times> int) list \<Rightarrow> session \<Rightarrow> (string \<times> int) list
     \<Rightarrow> session \<times> (string \<times> int) list" where
  "achievements_loop [] s newly = (s, newly)"
| "achievements_loop ((title, desc, cond, xp) # rest) s newly =
     (if title \<notin> ach s \<and> cond s
      then achievements_loop rest
             (s\<lparr>ach := insert title (ach s), total_xp := total_xp s + xp\<rparr>)
             (newly @ [(title, xp)])
      else achievements_loop rest s newly)"

definition check_achievements :: "session \<Rightarrow> session \<times> (string \<times> int) list" where
  "check_achievements s = achievements_loop ACHIEVEMENTS s []"

record quest =
  q_id :: string
  q_name :: string
  q_desc :: string
  q_target :: int
  q_key :: string
  reward_xp :: int
  reward_coins :: int

definition DAILY_QUESTS :: "quest list" where
  "DAILY_QUESTS =
     [\<lparr>q_id = ''q_daily_quiz'', q_name = ''Daily Quizzer'', q_desc = ''Complete 1 quiz today'',
       q_target = 1, q_key = ''daily_quizzes'', reward_xp = 20, reward_coins = 5\<rparr>,
      \<lparr>q_id = ''q_daily_correct'', q_name = ''Sharp Mind'',
       q_desc = ''Get 5 correct answers today'',
       q_target = 5, q_key = ''daily_correct'', reward_xp = 20, reward_coins = 5\<rparr>]"

definition WEEKLY_QUESTS :: "quest list" where
  "WEEKLY_QUESTS =
     [\<lparr>q_id = ''q_weekly_quizzes'', q_name = ''Weekly Warrior'',
       q_desc = ''Complete 10 quizzes this week'',
       q_target = 10, q_key = ''weekly_quizzes'', reward_xp = 100, reward_coins = 25\<rparr>,
      \<lparr>q_id = ''q_weekly_accuracy'', q_name = ''Precision'',
       q_desc = ''Achieve 80%+ in 3 quizzes this week'',
       q_target = 3, q_key = ''weekly_80plus'', reward_xp = 100, reward_coins = 25\<rparr>]"

definition grant_quest_rewards :: "string list \<Rightarrow> session \<Rightarrow> session" where
  "grant_quest_rewards completed_ids s =
     fold (\<lambda>q ss. if q_id q \<in> set completed_ids
                   then ss\<lparr>total_xp := total_xp ss + reward_xp q,
                           coins := coins ss + reward_coins q\<rparr>
                   else ss)
          (DAILY_QUESTS @ WEEKLY_QUESTS) s"

section \<open>The completion gate\<close>

text \<open>
  The message returned by the gate: the empty string, the congratulation or the retry
  notice, the last two carrying the accuracy they print.
\<close>

datatype gate_msg = NoMsg | GreatJob pyfloat | NeedRetry pyfloat

text \<open>
  Both branches of \<^verbatim>\<open>check_completion_gate\<close> run the same statements on the cumulative
  statistics, the per-chapter table and the history (lines 702-715 and 723-735); they
  differ in the \<^verbatim>\<open>xp\<close> field of the history entry only. \<open>stamp\<close> is the formatted
  local date \<^verbatim>\<open>pd.Timestamp("today").normalize().strftime("%Y-%m-%d")\<close>.
\<close>

definition record_attempt :: "string \<Rightarrow> int \<Rightarrow> session \<Rightarrow> session" where
  "record_attempt stamp xp s =
     (let subj = subject s; chap = chapter s;
          chapters = dict_get (progress s) subj [];
          cell = dict_get chapters chap \<lparr>p_score = 0, p_total = 0\<rparr>;
          cell' = cell\<lparr>p_score := p_score cell + quiz_map_correct s,
                       p_total := p_total cell + quiz_map_total_questions s\<rparr>
      in s\<lparr>quiz_score := quiz_score s + quiz_map_correct s,
           quiz_total := quiz_total s + quiz_map_total_questions s,
           quiz_count := quiz_count s + 1,
           progress := AList.update subj (AList.update chap cell' chapters) (progress s),
           history := history s @
             [\<lparr>h_date = stamp, h_subject = subj, h_chapter = chap,
               h_score = quiz_map_correct s, h_total = quiz_map_total_questions s,
               h_xp = xp\<rparr>]\<rparr>)"

text \<open>
  The right-hand side of \<^verbatim>\<open>accuracy = 100.0 * ss.quiz_map_correct /
  max(1, ss.quiz_map_total_questions)\<close> (line 691), evaluated from left to right: the
  counter is converted and multiplied by \<^verbatim>\<open>100.0\<close>, then the guarded total is converted
  and divides the product.
\<close>

definition gate_accuracy :: "int \<Rightarrow> int \<Rightarrow> py_error + pyfloat" where
  "gate_accuracy c t =
     (case float_of_int c of
        Inl e \<Rightarrow> Inl e
      | Inr fc \<Rightarrow>
         (case float_of_int (max 1 t) of
            Inl e \<Rightarrow> Inl e
          | Inr ft \<Rightarrow> py_truediv (float_mul 100 fc) ft))"

definition check_completion_gate ::
  "date \<Rightarrow> string \<Rightarrow> session \<Rightarrow> py_error + ((bool \<times> gate_msg) \<times> session)" where
  "check_completion_gate today stamp s =
     (if quiz_map_qindex s \<ge> quiz_map_total_questions s \<and> \<not> quiz_map_done s then
        (case gate_accuracy (quiz_map_correct s) (quiz_map_total_questions s) of
           Inl e \<Rightarrow> Inl e
         | Inr accuracy \<Rightarrow>
            (case update_quests today ''daily_quizzes'' 1 (float_ge accuracy 80)
                    (s\<lparr>last_quiz_pct := accuracy\<rparr>) of
               Inl e \<Rightarrow> Inl e
             | Inr s1 \<Rightarrow>
                if float_ge accuracy 80 then
                  (let s2 = s1\<lparr>quiz_map_done := True,
                               quiz_map_anim := Celebrate,
                               total_xp := total_xp s1 + 25,
                               game_credits := game_credits s1 + 1,
                               coins := coins s1 + 5\<rparr>;
                       s3 = record_attempt stamp (25 + 5 * quiz_map_correct s2) s2;
                       (s4, newly) = check_achievements s3
                   in Inr ((True, GreatJob accuracy), s4))
                else
                  (let s3 = record_attempt stamp (5 * quiz_map_correct s1) s1;
                       (s4, newly) = check_achievements s3
                   in Inr ((False, NeedRetry accuracy), s4))))
      else Inr ((False, NoMsg), s))"

text \<open>
  The quiz tab resets the adventure fields when a quiz with \<open>n\<close> parsed questions is
  started; the retry and next-part buttons delete them, after which
  \<^verbatim>\<open>initialize_quiz_map_state\<close> restores the defaults.
\<close>

definition start_quiz :: "int \<Rightarrow> session \<Rightarrow> session" where
  "start_quiz n s =
     s\<lparr>quiz_map_total_questions := n, quiz_map_position := 0, quiz_map_correct := 0,
       quiz_map_qindex := 0, quiz_map_anim := Idle, quiz_map_done := False,
       quiz_map_answers := []\<rparr>"

definition retry_quiz :: "session \<Rightarrow> session" where
  "retry_quiz s = start_quiz 0 s"

section \<open>The Sudoku reward\<close>

definition valid_group :: "int list \<Rightarrow> bool" where
  "valid_group grp =
     (let g = filter (\<lambda>x. x \<noteq> 0) grp
      in length g = card (set g) \<and> (\<forall>x \<in> set g. 1 \<le> x \<and> x \<le> 9))"

text \<open>\<open>validate_sudoku\<close> is applied to the 9 by 9 board the check handler builds.\<close>

definition validate_sudoku :: "int list list \<Rightarrow> bool" where
  "validate_sudoku board =
     ((\<forall>row \<in> set board. valid_group row) \<and>
      (\<forall>c \<in> set [0..<9]. valid_group (map (\<lambda>r. board ! r ! c) [0..<9])) \<and>
      (\<forall>br \<in> set [0..<3]. \<forall>bc \<in> set [0..<3].
          valid_group (concat (map (\<lambda>r. map (\<lambda>c. board ! r ! c) [bc * 3..<bc * 3 + 3])
                                   [br * 3..<br * 3 + 3]))))"

definition board_9x9 :: "int list list \<Rightarrow> bool" where
  "board_9x9 b = (length b \<ge> 9 \<and> (\<forall>i \<in> set [0..<9]. length (b ! i) \<ge> 9))"

text \<open>
  The handler of the Check button, shown while a game is started: it merges the puzzle
  and the player's input cell by cell (\<^verbatim>\<open>a or b\<close>), and a solved board pays 10 XP and
  refunds the credit. Reading a cell outside a board raises \<^verbatim>\<open>IndexError\<close>.
\<close>

definition sudoku_check :: "int list list \<Rightarrow> int list list \<Rightarrow> session \<Rightarrow> py_error + session" where
  "sudoku_check current_sudoku sudoku_user_input s =
     (if \<not> (board_9x9 current_sudoku \<and> board_9x9 sudoku_user_input) then Inl IndexError
      else
        let combined =
              map (\<lambda>i. map (\<lambda>j. if current_sudoku ! i ! j \<noteq> 0 then current_sudoku ! i ! j
                                  else sudoku_user_input ! i ! j) [0..<9]) [0..<9]
        in if (\<exists>r \<in> set combined. 0 \<in> set r) then Inr s
           else if validate_sudoku combined then
             Inr (s\<lparr>total_xp := total_xp s + 10,
                    game_credits := game_credits s + 1,
                    sudoku_wins := sudoku_wins s + 1,
                    sudoku_started := False,
                    sudoku_games_played := sudoku_games_played s + 1\<rparr>)
           else Inr s)"

section \<open>The operations of the engine\<close>

text \<open>
  One constructor for each state-changing operation of the engine, and the step function
  that runs it on a session. A session is any sequence of these steps.
\<close>

datatype engine_op =
    TouchDailyStreak date
  | UpdateQuests date string int bool
  | ApplyAnswer date bool int
  | CheckGate date string
  | CheckAchievements
  | GrantQuestRewards "string list"
  | SudokuCheck "int list list" "int list list"
  | StartQuiz int
  | RetryQuiz

fun engine_step :: "engine_op \<Rightarrow> session \<Rightarrow> py_error + session" where
  "engine_step (TouchDailyStreak today) s = Inr (touch_daily_streak today s)"
| "engine_step (UpdateQuests today k inc b) s = update_quests today k inc b s"
| "engine_step (ApplyAnswer today is_correct qidx) s = apply_answer_and_move today is_correct qidx s"
| "engine_step (CheckGate today stamp) s =
     (case check_completion_gate today stamp s of Inl e \<Rightarrow> Inl e | Inr (r, s') \<Rightarrow> Inr s')"
| "engine_step CheckAchievements s = Inr (fst (check_achievements s))"
| "engine_step (GrantQuestRewards ids) s = Inr (grant_quest_rewards ids s)"
| "engine_step (SudokuCheck cur usr) s = sudoku_check cur usr s"
| "engine_step (StartQuiz n) s = Inr (start_quiz n s)"
| "engine_step RetryQuiz s = Inr (retry_quiz s)"

text \<open>A run skips nothing and stops at the first exception.\<close>

fun engine_run :: "engine_op list \<Rightarrow> session \<Rightarrow> py_error + session" where
  "engine_run [] s = Inr s"
| "engine_run (op # ops) s =
     (case engine_step op s of Inl e \<Rightarrow> Inl e | Inr s' \<Rightarrow> engine_run ops s')"

section \<open>The quiz text parser (tutor_engine-1.py)\<close>

text \<open>
  A Python string is a sequence of Unicode code points and is modelled by the list of
  their numbers; \<open>py\<close> turns an ASCII literal into such a list. \<open>is_space\<close> is the set of
  code points for which \<^verbatim>\<open>str.isspace\<close> holds, which is also the class \<^verbatim>\<open>\s\<close> of a
  \<^verbatim>\<open>re\<close> pattern over \<^verbatim>\<open>str\<close>. The dot of a pattern compiled without \<^verbatim>\<open>re.S\<close> matches
  every code point except the line feed \<open>NL\<close>; under \<^verbatim>\<open>re.M\<close> the anchor \<^verbatim>\<open>^\<close> matches at
  the start of the text and after each line feed, and \<^verbatim>\<open>$\<close> at the end of the text and
  before each line feed.
\<close>

type_synonym pystr = "int list"

definition py :: "string \<Rightarrow> pystr" where
  "py = map of_char"

definition NL :: int where
  "NL = 10"

definition is_space :: "int \<Rightarrow> bool" where
  "is_space c =
     ((9 \<le> c \<and> c \<le> 13) \<or> (28 \<le> c \<and> c \<le> 32) \<or> c = 133 \<or> c = 160 \<or> c = 5760 \<or>
      (8192 \<le> c \<and> c \<le> 8202) \<or> c = 8232 \<or> c = 8233 \<or> c = 8239 \<or> c = 8287 \<or> c = 12288)"

definition py_strip :: "pystr \<Rightarrow> pystr" where
  "py_strip s = rev (dropWhile is_space (rev (dropWhile is_space s)))"

text \<open>
  \<open>split_first pat s\<close> cuts \<open>s\<close> at the leftmost occurrence of the literal \<open>pat\<close> and
  returns what stands before and after it; \<^verbatim>\<open>pat in s\<close> is \<open>split_first pat s \<noteq> None\<close>.
\<close>

fun split_first :: "pystr \<Rightarrow> pystr \<Rightarrow> (pystr \<times> pystr) option" where
  "split_first pat [] = (if pat = [] then Some ([], []) else None)"
| "split_first pat (c # cs) =
     (if prefix pat (c # cs) then Some ([], drop (length pat) (c # cs))
      else (case split_first pat cs of
              None \<Rightarrow> None
            | Some (before, after) \<Rightarrow> Some (c # before, after)))"

definition QUIZ_START :: pystr where "QUIZ_START = py ''[QUIZ START]''"
definition QUIZ_END :: pystr where "QUIZ_END = py ''[QUIZ END]''"
definition Q_OPEN :: pystr where "Q_OPEN = py ''[QUESTION]''"
definition Q_CLOSE :: pystr where "Q_CLOSE = py ''[/QUESTION]''"

text \<open>
  \<^verbatim>\<open>re.search(r"\[QUIZ START\](.*?)\[QUIZ END\]", text, flags=re.S)\<close>, group 1. The
  search takes the leftmost start at which the pattern matches, and the lazy group stops
  at the first end marker: the match starts at the leftmost start marker that has an
  end marker behind it. If the first start marker has none behind it, no later one has.
\<close>

definition search_quiz_body :: "pystr \<Rightarrow> pystr option" where
  "search_quiz_body text =
     (case split_first QUIZ_START text of
        None \<Rightarrow> None
      | Some (before, r) \<Rightarrow>
          (case split_first QUIZ_END r of
             None \<Rightarrow> None
           | Some (body, after) \<Rightarrow> Some body))"

lemma split_first_length:
  "split_first pat s = Some (before, after) \<Longrightarrow>
     length before + length pat + length after = length s"
proof (induction s arbitrary: before)
  case Nil
  then show ?case by (simp split: if_splits)
next
  case (Cons c cs)
  show ?case
  proof (cases "prefix pat (c # cs)")
    case True
    then have "length pat \<le> length (c # cs)" by (rule prefix_length_le)
    with True Cons.prems show ?thesis by auto
  next
    case False
    with Cons.prems obtain b where "split_first pat cs = Some (b, after)" "before = c # b"
      by (auto split: option.splits)
    with Cons.IH [of b] show ?thesis by simp
  qed
qed

text \<open>
  \<^verbatim>\<open>re.findall(r"\[QUESTION\](.*?)\[/QUESTION\]", body, flags=re.S)\<close>: the matches from
  left to right, none overlapping the one before, each giving its group 1.
\<close>

function findall_questions :: "pystr \<Rightarrow> pystr list" where
  "findall_questions s =
     (case split_first Q_OPEN s of
        None \<Rightarrow> []
      | Some (before, r) \<Rightarrow>
          (case split_first Q_CLOSE r of
             None \<Rightarrow> []
           | Some (qb, r') \<Rightarrow> qb # findall_questions r'))"
  by pat_completeness auto
termination
proof (relation "measure length")
  show "wf (measure length)" by simp
next
  fix s :: pystr and x2 x y r qb r' x2a
  assume a: "split_first Q_OPEN s = Some x2" "(x, r) = x2"
    and b: "split_first Q_CLOSE r = Some x2a" "(qb, r') = x2a"
  from a have "length x + length Q_OPEN + length r = length s"
    using split_first_length [of Q_OPEN s x r] by simp
  moreover from b have "length qb + length Q_CLOSE + length r' = length r"
    using split_first_length [of Q_CLOSE r qb r'] by simp
  moreover have "length Q_OPEN = 10" by (simp add: Q_OPEN_def py_def)
  ultimately show "(r', s) \<in> measure length" by simp
qed

declare findall_questions.simps [simp del]

text \<open>
  \<^verbatim>\<open>re.search\<close> of a pattern that begins with \<^verbatim>\<open>^\<close> under \<^verbatim>\<open>re.M\<close>: the start positions
  are tried from left to right, the end of the text included; the anchor holds at the
  start of the text and behind a line feed; \<open>m\<close> is the rest of the pattern, run on the
  text from the start position on. The first success is the result.
\<close>

fun search_bol :: "(pystr \<Rightarrow> 'a option) \<Rightarrow> bool \<Rightarrow> pystr \<Rightarrow> 'a option" where
  "search_bol m bol [] = (if bol then m [] else None)"
| "search_bol m bol (c # cs) =
     (case (if bol then m (c # cs) else None) of
        Some g \<Rightarrow> Some g
      | None \<Rightarrow> search_bol m (c = NL) cs)"

text \<open>
  The rest \<^verbatim>\<open>\s*KEY\s*(.+)\s*$\<close> of the question and option patterns, for a literal
  \<open>key\<close> that contains no white space (\<^verbatim>\<open>Question:\<close>, \<^verbatim>\<open>[A]\<close>, \<^verbatim>\<open>[B]\<close>, \<^verbatim>\<open>[C]\<close>), giving
  group 1. The first \<^verbatim>\<open>\s*\<close> has to take the whole run of white space, as the key starts
  with none. The second \<^verbatim>\<open>\s*\<close> is greedy: if anything follows the run of white space
  behind the key, the group is the rest of that line, and the final \<^verbatim>\<open>\s*$\<close> matches
  at its end. If only white space follows the key up to the end of the text, the second
  \<^verbatim>\<open>\s*\<close> gives characters back until the dot can match one: the group is the last
  character of the run that is not a line feed, and there is no match if there is none.
\<close>

definition match_labelled :: "pystr \<Rightarrow> pystr \<Rightarrow> pystr option" where
  "match_labelled key s =
     (let r = dropWhile is_space s in
      if \<not> prefix key r then None
      else
        let t = drop (length key) r;
            w = takeWhile is_space t;
            rest = dropWhile is_space t
        in if rest \<noteq> [] then Some (takeWhile (\<lambda>c. c \<noteq> NL) rest)
           else (case filter (\<lambda>c. c \<noteq> NL) w of
                   [] \<Rightarrow> None
                 | x # xs \<Rightarrow> Some [last (x # xs)]))"

text \<open>
  The rest \<^verbatim>\<open>\s*KEY\s*.+\<close> of the validator's patterns: it matches if, behind the key,
  the run of white space is followed by any character or holds one that is not a line
  feed.
\<close>

definition match_labelled_v :: "pystr \<Rightarrow> pystr \<Rightarrow> unit option" where
  "match_labelled_v key s =
     (let r = dropWhile is_space s in
      if \<not> prefix key r then None
      else
        let t = drop (length key) r
        in if dropWhile is_space t \<noteq> [] \<or> (\<exists>c \<in> set (takeWhile is_space t). c \<noteq> NL)
           then Some () else None)"

text \<open>The rest \<^verbatim>\<open>\s*\[CORRECT:\s*([A-C])\s*\]\<close> of the marker pattern, giving the letter.\<close>

definition match_correct :: "pystr \<Rightarrow> int option" where
  "match_correct s =
     (let r = dropWhile is_space s in
      if \<not> prefix (py ''[CORRECT:'') r then None
      else
        (case dropWhile is_space (drop (length (py ''[CORRECT:'')) r) of
           [] \<Rightarrow> None
         | c # u \<Rightarrow>
             if of_char CHR ''A'' \<le> c \<and> c \<le> of_char CHR ''C'' then
               (case dropWhile is_space u of
                  [] \<Rightarrow> None
                | x # v \<Rightarrow> if x = of_char CHR '']'' then Some c else None)
             else None))"

record quiz_item =
  question :: pystr
  options :: "pystr list"
  answer :: pystr
  explanation :: pystr
  code :: pystr

text \<open>The label \<^verbatim>\<open>[k]\<close> of the option with letter \<open>k\<close>.\<close>

definition option_label :: "int \<Rightarrow> pystr" where
  "option_label k = [of_char CHR ''['', k, of_char CHR '']'']"

definition option_keys :: "int list" where
  "option_keys = [of_char CHR ''A'', of_char CHR ''B'', of_char CHR ''C'']"

text \<open>The body of the loop of \<^verbatim>\<open>parse_quiz_block\<close>: \<open>None\<close> is the \<^verbatim>\<open>continue\<close>.\<close>

definition parse_question :: "pystr \<Rightarrow> quiz_item option" where
  "parse_question qb =
     (let question =
            (case search_bol (match_labelled (py ''Question:'')) True qb of
               Some g \<Rightarrow> py_strip g | None \<Rightarrow> []);
          options_map =
            map (\<lambda>key. (key,
                   (case search_bol (match_labelled (option_label key)) True qb of
                      Some g \<Rightarrow> py_strip g | None \<Rightarrow> [])))
                option_keys;
          correct_key =
            (case search_bol match_correct True qb of
               Some c \<Rightarrow> c | None \<Rightarrow> of_char CHR ''A'')
      in if question = [] \<or> \<not> list_all (\<lambda>(k, v). v \<noteq> []) options_map then None
         else Some \<lparr>question = question,
                    options = [dict_get options_map (of_char CHR ''A'') [],
                               dict_get options_map (of_char CHR ''B'') [],
                               dict_get options_map (of_char CHR ''C'') []],
                    answer = dict_get options_map correct_key [],
                    explanation = [],
                    code = []\<rparr>)"

definition parse_quiz_block :: "pystr \<Rightarrow> quiz_item list" where
  "parse_quiz_block text =
     (if text = [] then []
      else (case search_quiz_body text of
              None \<Rightarrow> []
            | Some body \<Rightarrow> List.map_filter parse_question (findall_questions body)))"

definition validate_question :: "pystr \<Rightarrow> bool" where
  "validate_question qb =
     (search_bol (match_labelled_v (py ''Question:'')) True qb \<noteq> None \<and>
      list_all (\<lambda>k. search_bol (match_labelled_v (option_label k)) True qb \<noteq> None) option_keys \<and>
      search_bol match_correct True qb \<noteq> None)"

definition validate_quiz_block :: "pystr \<Rightarrow> bool" where
  "validate_quiz_block text =
     (if text = [] \<or> split_first QUIZ_START text = None \<or> split_first QUIZ_END text = None
      then False
      else (case search_quiz_body text of
              None \<Rightarrow> False
            | Some body \<Rightarrow>
                (let q_blocks = findall_questions body
                 in if length q_blocks \<noteq> 5 then False
                    else list_all validate_question q_blocks)))"

text \<open>
  The quiz tab resolves the correct option of a parsed record when an answer is scored:
  the record has no \<^verbatim>\<open>correct\<close> key, so the index is that of the first option equal to
  the answer text, and \<open>-1\<close> if there is none.
\<close>

definition correct_index :: "quiz_item \<Rightarrow> int" where
  "correct_index q =
     (case find (\<lambda>(j, opt). opt = answer q) (enumerate 0 (options q)) of
        Some (j, opt) \<Rightarrow> int j
      | None \<Rightarrow> - 1)"

section \<open>Rounding to binary64\<close>

lemma round_half_even_bounds:
  "y - 1 / 2 \<le> of_int (round_half_even y) \<and> of_int (round_half_even y) \<le> y + 1 / 2"
proof -
  define f where "f = \<lfloor>y\<rfloor>"
  have fl: "of_int f \<le> y" "y < of_int f + 1" unfolding f_def by linarith+
  have r: "round_half_even y =
      (if y - of_int f < 1 / 2 then f
       else if 1 / 2 < y - of_int f then f + 1
       else if even f then f else f + 1)"
    by (simp add: round_half_even_def Let_def f_def)
  consider "y - of_int f < 1 / 2" | "1 / 2 < y - of_int f" | "y - of_int f = 1 / 2"
    by linarith
  then show ?thesis
  proof cases
    case 1
    with r have "round_half_even y = f" by simp
    with 1 fl show ?thesis by simp
  next
    case 2
    with r have "round_half_even y = f + 1" by simp
    with 2 fl show ?thesis by simp
  next
    case 3
    with r have "round_half_even y = f \<or> round_half_even y = f + 1" by simp
    with 3 fl show ?thesis by auto
  qed
qed

lemma round_half_even_ge:
  assumes "of_int k \<le> y"
  shows "k \<le> round_half_even y"
proof -
  from assms have "k \<le> \<lfloor>y\<rfloor>" by (simp add: le_floor_iff)
  then show ?thesis by (auto simp: round_half_even_def Let_def)
qed

lemma round_half_even_of_int [simp]: "round_half_even (of_int n) = n"
  by (simp add: round_half_even_def)

lemma bitlen_powi:
  assumes "0 < p"
  shows "(2::rat) powi (bitlen p - 1) \<le> of_int p \<and> of_int p < (2::rat) powi (bitlen p)"
proof -
  from bitlen_bounds [OF assms]
  have b: "2 ^ nat (bitlen p - 1) \<le> p" "p < 2 ^ nat (bitlen p)" by simp_all
  have pos: "1 \<le> bitlen p" using assms bitlen_eq_zero_iff [of p] bitlen_nonneg [of p] by linarith
  have "(2::rat) powi (bitlen p - 1) = 2 ^ nat (bitlen p - 1)"
    using pos by (simp add: power_int_def)
  moreover have "(2::rat) powi (bitlen p) = 2 ^ nat (bitlen p)"
    using pos by (simp add: power_int_def)
  moreover have "(2::rat) ^ nat (bitlen p - 1) \<le> of_int p"
    using b(1) by (metis of_int_le_iff of_int_numeral of_int_power)
  moreover have "of_int p < (2::rat) ^ nat (bitlen p)"
    using b(2) by (metis of_int_less_iff of_int_numeral of_int_power)
  ultimately show ?thesis by simp
qed

lemma ilog2_bounds:
  assumes "0 < a"
  shows "2 powi (ilog2 a) \<le> a \<and> a < 2 powi (ilog2 a + 1)"
proof -
  obtain p q where pq: "quotient_of a = (p, q)" by (cases "quotient_of a") auto
  then have q: "0 < q" and a: "a = of_int p / of_int q"
    using quotient_of_denom_pos quotient_of_div by auto
  with assms have p: "0 < p"
    by (simp add: zero_less_divide_iff)
  let ?d = "bitlen p - bitlen q"
  from bitlen_powi [OF p] bitlen_powi [OF q]
  have bp: "(2::rat) powi (bitlen p - 1) \<le> of_int p" "of_int p < (2::rat) powi (bitlen p)"
    and bq: "(2::rat) powi (bitlen q - 1) \<le> of_int q" "of_int q < (2::rat) powi (bitlen q)"
    by simp_all
  have qpos: "(0::rat) < of_int q" using q by simp
  have "a < (2::rat) powi (?d + 1)"
  proof -
    have "a * of_int q = of_int p" using a qpos by simp
    also have "\<dots> < (2::rat) powi (bitlen p)" by (rule bp(2))
    also have "\<dots> = 2 powi (?d + 1) * 2 powi (bitlen q - 1)"
      by (simp add: power_int_add [symmetric])
    also have "\<dots> \<le> 2 powi (?d + 1) * of_int q"
      using bq(1) by (intro mult_left_mono) simp_all
    finally show ?thesis using qpos by simp
  qed
  moreover have "(2::rat) powi (?d - 1) < a"
  proof -
    have "(2::rat) powi (?d - 1) * of_int q < 2 powi (?d - 1) * 2 powi (bitlen q)"
      using bq(2) by (intro mult_strict_left_mono) simp_all
    also have "\<dots> = 2 powi (bitlen p - 1)"
      by (simp add: power_int_add [symmetric])
    also have "\<dots> \<le> of_int p" by (rule bp(1))
    also have "\<dots> = a * of_int q" using a qpos by simp
    finally show ?thesis using qpos by simp
  qed
  ultimately show ?thesis
    using pq by (auto simp: ilog2_def Let_def)
qed

lemma ilog2_le:
  assumes "0 < a" and "a < 2 powi k"
  shows "ilog2 a < k"
proof (rule ccontr)
  assume "\<not> ilog2 a < k"
  then have "(2::rat) powi k \<le> 2 powi (ilog2 a)"
    by (intro power_int_increasing) simp_all
  with ilog2_bounds [OF assms(1)] assms(2) show False by simp
qed

lemma ilog2_ge:
  assumes "0 < a" and "2 powi k \<le> a"
  shows "k \<le> ilog2 a"
proof (rule ccontr)
  assume "\<not> k \<le> ilog2 a"
  then have "(2::rat) powi (ilog2 a + 1) \<le> 2 powi k"
    by (intro power_int_increasing) simp_all
  with ilog2_bounds [OF assms(1)] assms(2) show False by simp
qed

lemma round64_of_int:
  assumes "0 \<le> n" and "n < 2 ^ 53"
  shows "round64 (of_int n) = Fl (of_int n)"
proof (cases "n = 0")
  case True
  then show ?thesis by (simp add: round64_def)
next
  case False
  with assms have n: "0 < n" by simp
  let ?a = "of_int n :: rat"
  let ?e = "ilog2 ?a"
  have a: "0 < ?a" using n by simp
  have "(2::rat) powi 0 \<le> ?a" using n by simp
  then have e0: "0 \<le> ?e" using ilog2_ge [OF a] by blast
  have "?a < (2::rat) ^ 53"
    using assms(2) by (metis of_int_less_iff of_int_numeral of_int_power)
  then have "?a < (2::rat) powi 53" by simp
  then have e53: "?e < 53" using ilog2_le [OF a] by blast
  define k where "k = nat (52 - ?e)"
  have q: "(2::rat) powi (max (?e - 52) (- 1074)) = 1 / 2 ^ k"
  proof -
    have "max (?e - 52) (- 1074) = - int k" using e0 e53 by (simp add: k_def)
    then show ?thesis by (simp add: power_int_minus divide_inverse)
  qed
  have quot: "?a / (1 / 2 ^ k) = of_int (n * 2 ^ k)" by simp
  have r: "of_int (round_half_even (?a / (1 / 2 ^ k))) * (1 / 2 ^ k) = ?a"
    by (simp only: quot round_half_even_of_int) simp
  have small: "\<not> (2::rat) ^ 1024 \<le> ?a"
  proof -
    have "(2::rat) ^ 53 \<le> 2 ^ 1024" by (intro power_increasing) simp_all
    with \<open>?a < (2::rat) ^ 53\<close> show ?thesis by simp
  qed
  have "round64 ?a = (let r = of_int (round_half_even (?a / (1 / 2 ^ k))) * (1 / 2 ^ k)
      in if 2 ^ 1024 \<le> r then PInf else Fl r)"
    using a q by (simp add: round64_def Let_def)
  also have "\<dots> = Fl ?a"
    unfolding Let_def r using small by simp
  finally show ?thesis .
qed



lemma round_half_even_near:
  assumes "of_int k - 1 / 2 < y" and "y < of_int k + 1 / 2"
  shows "round_half_even y = k"
proof (cases "of_int k \<le> y")
  case True
  with assms(2) have "\<lfloor>y\<rfloor> = k" by (intro floor_unique) simp_all
  with assms(2) show ?thesis by (simp add: round_half_even_def Let_def)
next
  case False
  with assms(1) have "\<lfloor>y\<rfloor> = k - 1" by (intro floor_unique) simp_all
  with assms(1) show ?thesis by (simp add: round_half_even_def Let_def)
qed


lemma round64_normal:
  assumes "2 powi e \<le> x" and "x < 2 powi (e + 1)" and "- 1022 \<le> e" and "e < 1023"
  shows "round64 x = Fl (of_int (round_half_even (x / 2 powi (e - 52))) * 2 powi (e - 52))"
proof -
  have "(0::rat) < 2 powi e" by simp
  with assms(1) have x: "0 < x" by linarith
  have "ilog2 x < e + 1" using ilog2_le [OF x assms(2)] .
  moreover have "e \<le> ilog2 x" using ilog2_ge [OF x assms(1)] .
  ultimately have e: "ilog2 x = e" by simp
  define q :: rat where "q = 2 powi (e - 52)"
  have qpos: "0 < q" by (simp add: q_def)
  define m :: int where "m = round_half_even (x / q)"
  have mx: "max (e - 52) (- 1074) = e - 52" using assms(3) by simp
  have r64: "round64 x = (if 2 ^ 1024 \<le> of_int m * q then PInf else Fl (of_int m * q))"
    using x by (simp add: round64_def Let_def e mx q_def m_def)
  have split: "(2::rat) powi (e + 1) = 2 ^ 53 * q"
  proof -
    have "e + 1 = 53 + (e - 52)" by simp
    then have "(2::rat) powi (e + 1) = 2 powi 53 * 2 powi (e - 52)"
      by (metis power_int_add zero_neq_numeral)
    then show ?thesis by (simp add: q_def)
  qed
  have "x < 2 ^ 53 * q" using assms(2) by (simp only: split)
  then have "x / q < 2 ^ 53" using qpos by (simp add: pos_divide_less_eq)
  moreover have "of_int m \<le> x / q + 1 / 2"
    unfolding m_def using round_half_even_bounds by blast
  ultimately have "(of_int m :: rat) < of_int (2 ^ 53 + 1)" by simp
  then have "m < 2 ^ 53 + 1" by (simp only: of_int_less_iff)
  then have "m \<le> 2 ^ 53" by simp
  then have "(of_int m :: rat) \<le> of_int (2 ^ 53)" by (simp only: of_int_le_iff)
  then have "(of_int m :: rat) \<le> 2 ^ 53" by simp
  then have "of_int m * q \<le> 2 ^ 53 * q"
    using qpos by (intro mult_right_mono) simp_all
  also have "\<dots> = 2 powi (e + 1)" by (simp only: split)
  also have "\<dots> \<le> 2 powi 1023"
    using assms(4) by (intro power_int_increasing) simp_all
  also have "\<dots> = 2 ^ 1023" by simp
  finally have "of_int m * q \<le> 2 ^ 1023" .
  moreover have "(2::rat) ^ 1023 < 2 ^ 1024" by (intro power_strict_increasing) simp_all
  ultimately have "\<not> 2 ^ 1024 \<le> of_int m * q" by linarith
  then show ?thesis by (simp add: r64 m_def q_def)
qed


lemma round64_uminus:
  "round64 (- x) = (case round64 x of Fl v \<Rightarrow> Fl (- v) | PInf \<Rightarrow> NInf | NInf \<Rightarrow> PInf)"
proof -
  consider "x = 0" | "0 < x" | "x < 0" by linarith
  then show ?thesis
  proof cases
    case 1
    then show ?thesis by (simp add: round64_def)
  next
    case 2
    then show ?thesis by (simp add: round64_def Let_def)
  next
    case 3
    then show ?thesis by (simp add: round64_def Let_def)
  qed
qed

lemma round64_of_int_abs:
  assumes "\<bar>n\<bar> < 2 ^ 53"
  shows "round64 (of_int n) = Fl (of_int n)"
proof (cases "0 \<le> n")
  case True
  with assms show ?thesis by (intro round64_of_int) simp_all
next
  case False
  with assms have "round64 (of_int (- n)) = Fl (of_int (- n))"
    by (intro round64_of_int) simp_all
  moreover have "round64 (of_int n) = round64 (- of_int (- n))" by simp
  ultimately show ?thesis by (simp only: round64_uminus pyfloat.case) simp
qed


section \<open>Streak arithmetic\<close>

text \<open>
  Claim C6. \<open>touch_daily_streak\<close>: with no last active date the streak becomes 1; a day
  difference of exactly 1 increments the streak by exactly 1; a difference greater than 1
  resets it to 1; a difference of 0 leaves it unchanged; in every case the last active
  date is today afterwards.
\<close>

theorem touch_daily_streak_cases:
  "(last_active_date s = None \<longrightarrow> daily_streak (touch_daily_streak today s) = 1) \<and>
   (\<forall>last_day. last_active_date s = Some last_day \<longrightarrow>
      (today - last_day = 1 \<longrightarrow> daily_streak (touch_daily_streak today s) = daily_streak s + 1) \<and>
      (today - last_day > 1 \<longrightarrow> daily_streak (touch_daily_streak today s) = 1) \<and>
      (today - last_day = 0 \<longrightarrow> daily_streak (touch_daily_streak today s) = daily_streak s)) \<and>
   last_active_date (touch_daily_streak today s) = Some today"
  by (cases "last_active_date s") (simp_all add: touch_daily_streak_def Let_def)

theorem touch_daily_streak_cases_witness:
  "last_active_date ((init_state 9)\<lparr>daily_streak := 4, last_active_date := Some 9\<rparr>) = Some 9 \<and>
   (10::int) - 9 = 1 \<and>
   daily_streak (touch_daily_streak 10
      ((init_state 9)\<lparr>daily_streak := 4, last_active_date := Some 9\<rparr>)) = 5 \<and>
   last_active_date (touch_daily_streak 10
      ((init_state 9)\<lparr>daily_streak := 4, last_active_date := Some 9\<rparr>)) = Some 10"
  using touch_daily_streak_cases
          [of "(init_state 9)\<lparr>daily_streak := 4, last_active_date := Some 9\<rparr>" 10]
  by (simp add: init_state_def)

section \<open>Position clamp\<close>

lemma update_quests_frame:
  "progress_key \<noteq> ''reset_date'' \<Longrightarrow>
     \<exists>d w. update_quests today progress_key inc b s =
             Inr (s\<lparr>quests_daily_progress := d, quests_weekly_progress := w\<rparr>)"
  unfolding update_quests_def Let_def
  by (simp only: if_not_P if_False) (intro exI, rule refl)

lemma apply_answer_and_move_correct:
  "\<exists>d w. apply_answer_and_move today True qidx s =
     Inr (s\<lparr>quiz_map_position := min (quiz_map_position s + 1) (quiz_map_total_questions s + 1),
            quiz_map_correct := quiz_map_correct s + 1,
            quiz_map_anim := Fwd,
            total_xp := total_xp s + 5,
            correct_streak := correct_streak s + 1,
            correct_total := correct_total s + 1,
            quests_daily_progress := d, quests_weekly_progress := w,
            quiz_map_qindex := qidx + 1\<rparr>)"
proof -
  let ?s1 = "s\<lparr>quiz_map_position := min (quiz_map_position s + 1) (quiz_map_total_questions s + 1),
            quiz_map_correct := quiz_map_correct s + 1,
            quiz_map_anim := Fwd,
            total_xp := total_xp s + 5,
            correct_streak := correct_streak s + 1,
            correct_total := correct_total s + 1\<rparr>"
  obtain d w where "update_quests today ''daily_correct'' 1 False ?s1 =
      Inr (?s1\<lparr>quests_daily_progress := d, quests_weekly_progress := w\<rparr>)"
    using update_quests_frame [of "''daily_correct''" today 1 False ?s1] by auto
  then show ?thesis
    by (auto simp: apply_answer_and_move_def)
qed

lemma apply_answer_and_move_wrong:
  "apply_answer_and_move today False qidx s =
     Inr (s\<lparr>quiz_map_position := max 0 (quiz_map_position s - 1),
            quiz_map_anim := Back,
            correct_streak := 0,
            quiz_map_qindex := qidx + 1\<rparr>)"
  by (simp add: apply_answer_and_move_def)

lemma apply_answer_and_move_position:
  "\<exists>s'. apply_answer_and_move today is_correct qidx s = Inr s' \<and>
        quiz_map_total_questions s' = quiz_map_total_questions s \<and>
        quiz_map_position s' =
          (if is_correct then min (quiz_map_position s + 1) (quiz_map_total_questions s + 1)
           else max 0 (quiz_map_position s - 1))"
proof (cases is_correct)
  case True
  obtain d w where "apply_answer_and_move today True qidx s =
     Inr (s\<lparr>quiz_map_position := min (quiz_map_position s + 1) (quiz_map_total_questions s + 1),
            quiz_map_correct := quiz_map_correct s + 1,
            quiz_map_anim := Fwd,
            total_xp := total_xp s + 5,
            correct_streak := correct_streak s + 1,
            correct_total := correct_total s + 1,
            quests_daily_progress := d, quests_weekly_progress := w,
            quiz_map_qindex := qidx + 1\<rparr>)"
    using apply_answer_and_move_correct by blast
  with True show ?thesis by simp
next
  case False
  then show ?thesis by (simp add: apply_answer_and_move_wrong)
qed

lemma run_answers_position:
  "0 \<le> quiz_map_total_questions s \<Longrightarrow> 0 \<le> quiz_map_position s \<Longrightarrow>
   quiz_map_position s \<le> quiz_map_total_questions s + 1 \<Longrightarrow>
   \<exists>s'. run_answers subs s = Inr s' \<and>
        quiz_map_total_questions s' = quiz_map_total_questions s \<and>
        0 \<le> quiz_map_position s' \<and>
        quiz_map_position s' \<le> quiz_map_total_questions s + 1"
proof (induction subs arbitrary: s)
  case Nil
  then show ?case by simp
next
  case (Cons sub subs)
  obtain today is_correct qidx where sub: "sub = (today, is_correct, qidx)"
    by (cases sub) auto
  obtain s1 where s1: "apply_answer_and_move today is_correct qidx s = Inr s1"
      "quiz_map_total_questions s1 = quiz_map_total_questions s"
      "quiz_map_position s1 =
          (if is_correct then min (quiz_map_position s + 1) (quiz_map_total_questions s + 1)
           else max 0 (quiz_map_position s - 1))"
    using apply_answer_and_move_position by blast
  have "0 \<le> quiz_map_position s1" "quiz_map_position s1 \<le> quiz_map_total_questions s1 + 1"
    using Cons.prems s1(2,3) by (auto split: if_splits)
  with Cons.IH [of s1] Cons.prems(1) s1(2)
  obtain s' where "run_answers subs s1 = Inr s'"
      "quiz_map_total_questions s' = quiz_map_total_questions s1"
      "0 \<le> quiz_map_position s'" "quiz_map_position s' \<le> quiz_map_total_questions s1 + 1"
    by auto
  with s1(1,2) sub show ?case by simp
qed

text \<open>
  Claim C3. On a track of \<open>T = quiz_map_total_questions\<close> questions a correct answer moves
  the position to \<open>min (position + 1) (T + 1)\<close> and an incorrect one to
  \<open>max (position - 1) 0\<close>; started inside \<open>[0, T + 1]\<close>, every sequence of submissions
  runs without an exception and ends with the position inside \<open>[0, T + 1]\<close>. As the
  sequence is arbitrary, this holds after each single submission of a run.
\<close>

theorem position_clamped:
  assumes "0 \<le> quiz_map_total_questions s"
    and "0 \<le> quiz_map_position s"
    and "quiz_map_position s \<le> quiz_map_total_questions s + 1"
  shows "(\<exists>s'. apply_answer_and_move today True qidx s = Inr s' \<and>
            quiz_map_position s' = min (quiz_map_position s + 1) (quiz_map_total_questions s + 1)) \<and>
         (\<exists>s'. apply_answer_and_move today False qidx s = Inr s' \<and>
            quiz_map_position s' = max (quiz_map_position s - 1) 0) \<and>
         (\<exists>s'. run_answers subs s = Inr s' \<and>
            quiz_map_total_questions s' = quiz_map_total_questions s \<and>
            0 \<le> quiz_map_position s' \<and>
            quiz_map_position s' \<le> quiz_map_total_questions s + 1)"
proof (intro conjI)
  show "\<exists>s'. apply_answer_and_move today True qidx s = Inr s' \<and>
            quiz_map_position s' = min (quiz_map_position s + 1) (quiz_map_total_questions s + 1)"
    using apply_answer_and_move_position [of today True qidx s] by auto
  show "\<exists>s'. apply_answer_and_move today False qidx s = Inr s' \<and>
            quiz_map_position s' = max (quiz_map_position s - 1) 0"
    using apply_answer_and_move_position [of today False qidx s] by (auto simp: max.commute)
  show "\<exists>s'. run_answers subs s = Inr s' \<and>
            quiz_map_total_questions s' = quiz_map_total_questions s \<and>
            0 \<le> quiz_map_position s' \<and>
            quiz_map_position s' \<le> quiz_map_total_questions s + 1"
    using run_answers_position [OF assms] .
qed

theorem position_clamped_witness:
  "0 \<le> quiz_map_total_questions ((init_state 0)\<lparr>quiz_map_total_questions := 2\<rparr>) \<and>
   0 \<le> quiz_map_position ((init_state 0)\<lparr>quiz_map_total_questions := 2\<rparr>) \<and>
   quiz_map_position ((init_state 0)\<lparr>quiz_map_total_questions := 2\<rparr>) \<le> 2 + 1 \<and>
   (\<exists>s'. run_answers [(0, True, 0), (0, True, 1), (0, True, 2), (0, True, 3), (0, False, 4)]
            ((init_state 0)\<lparr>quiz_map_total_questions := 2\<rparr>) = Inr s' \<and>
         quiz_map_total_questions s' = 2 \<and>
         0 \<le> quiz_map_position s' \<and> quiz_map_position s' \<le> 2 + 1)"
  using position_clamped [of "(init_state 0)\<lparr>quiz_map_total_questions := 2\<rparr>" 0 0
          "[(0, True, 0), (0, True, 1), (0, True, 2), (0, True, 3), (0, False, 4)]"]
  by (simp add: init_state_def)

section \<open>Quest windows\<close>

lemma dict_get_update:
  "dict_get (AList.update k v al) k' d = (if k' = k then v else dict_get al k' d)"
  by (simp add: dict_get_def update_conv')

text \<open>
  Claim C7. An increment of a quest counter (under any key but the date's own) first
  zeroes every daily counter and stamps today if the stored reset date differs from today,
  and then adds the amount to the named daily counter; with a stored week start \<open>ws\<close>
  the weekly counters are zeroed, and the week start moved to today, exactly when at least
  7 days have passed since \<open>ws\<close>; the key of quiz completions, \<^verbatim>\<open>daily_quizzes\<close>,
  adds the same amount to the weekly quiz counter and, if the quiz was flagged as scoring
  80% or more, one to the weekly high-accuracy counter. Nothing else in the session
  changes.
\<close>

theorem update_quests_windows:
  assumes "progress_key \<noteq> ''reset_date''"
    and "week_start (quests_weekly_progress s) = Some ws"
  shows "\<exists>s'. update_quests today progress_key inc is_80plus s = Inr s' \<and>
      s' = s\<lparr>quests_daily_progress := quests_daily_progress s',
              quests_weekly_progress := quests_weekly_progress s'\<rparr> \<and>
      reset_date (quests_daily_progress s') = today \<and>
      (\<forall>k. dict_get (daily_counts (quests_daily_progress s')) k 0 =
            (if reset_date (quests_daily_progress s) \<noteq> today then 0
             else dict_get (daily_counts (quests_daily_progress s)) k 0) +
            (if k = progress_key then inc else 0)) \<and>
      week_start (quests_weekly_progress s') = Some (if today - ws \<ge> 7 then today else ws) \<and>
      weekly_quizzes (quests_weekly_progress s') =
        (if today - ws \<ge> 7 then 0 else weekly_quizzes (quests_weekly_progress s)) +
        (if progress_key = ''daily_quizzes'' then inc else 0) \<and>
      weekly_80plus (quests_weekly_progress s') =
        (if today - ws \<ge> 7 then 0 else weekly_80plus (quests_weekly_progress s)) +
        (if progress_key = ''daily_quizzes'' \<and> is_80plus then 1 else 0)"
  using assms
  by (simp add: update_quests_def Let_def dict_get_update) (simp add: dict_get_def)

theorem update_quests_windows_witness:
  "''daily_quizzes'' \<noteq> ''reset_date'' \<and>
   week_start (quests_weekly_progress
     ((init_state 0)\<lparr>quests_daily_progress :=
        \<lparr>daily_counts = [(''daily_quizzes'', 3), (''daily_correct'', 7)], reset_date = 0\<rparr>\<rparr>))
     = Some 0 \<and>
   (\<exists>s'. update_quests 1 ''daily_quizzes'' 1 True
       ((init_state 0)\<lparr>quests_daily_progress :=
          \<lparr>daily_counts = [(''daily_quizzes'', 3), (''daily_correct'', 7)], reset_date = 0\<rparr>\<rparr>)
       = Inr s' \<and>
      reset_date (quests_daily_progress s') = 1 \<and>
      dict_get (daily_counts (quests_daily_progress s')) ''daily_quizzes'' 0 = 1 \<and>
      dict_get (daily_counts (quests_daily_progress s')) ''daily_correct'' 0 = 0 \<and>
      week_start (quests_weekly_progress s') = Some 0 \<and>
      weekly_quizzes (quests_weekly_progress s') = 1 \<and>
      weekly_80plus (quests_weekly_progress s') = 1)"
proof -
  let ?s = "(init_state 0)\<lparr>quests_daily_progress :=
          \<lparr>daily_counts = [(''daily_quizzes'', 3), (''daily_correct'', 7)], reset_date = 0\<rparr>\<rparr>"
  have k: "''daily_quizzes'' \<noteq> ''reset_date''" by simp
  have w: "week_start (quests_weekly_progress ?s) = Some 0" by (simp add: init_state_def)
  obtain s' where s': "update_quests 1 ''daily_quizzes'' 1 True ?s = Inr s'"
      "reset_date (quests_daily_progress s') = 1"
      "\<forall>k. dict_get (daily_counts (quests_daily_progress s')) k 0 =
            (if reset_date (quests_daily_progress ?s) \<noteq> 1 then 0
             else dict_get (daily_counts (quests_daily_progress ?s)) k 0) +
            (if k = ''daily_quizzes'' then 1 else 0)"
      "week_start (quests_weekly_progress s') = Some (if (1::int) - 0 \<ge> 7 then 1 else 0)"
      "weekly_quizzes (quests_weekly_progress s') =
        (if (1::int) - 0 \<ge> 7 then 0 else weekly_quizzes (quests_weekly_progress ?s)) +
        (if ''daily_quizzes'' = ''daily_quizzes'' then 1 else 0)"
      "weekly_80plus (quests_weekly_progress s') =
        (if (1::int) - 0 \<ge> 7 then 0 else weekly_80plus (quests_weekly_progress ?s)) +
        (if ''daily_quizzes'' = ''daily_quizzes'' \<and> True then 1 else 0)"
    using update_quests_windows [OF k w, of 1 1 True] by blast
  from s'(3) have "dict_get (daily_counts (quests_daily_progress s')) ''daily_quizzes'' 0 = 1"
      "dict_get (daily_counts (quests_daily_progress s')) ''daily_correct'' 0 = 0"
    by (simp_all add: init_state_def)
  with s'(1,2,4,5,6) k w show ?thesis by (simp add: init_state_def)
qed

section \<open>Achievements\<close>

lemma achievements_loop_frame:
  "\<exists>A X. fst (achievements_loop cat s newly) = s\<lparr>ach := A, total_xp := X\<rparr> \<and> ach s \<subseteq> A"
proof (induction cat arbitrary: s newly)
  case Nil
  have "s = s\<lparr>ach := ach s, total_xp := total_xp s\<rparr>" by simp
  then show ?case by (metis achievements_loop.simps(1) fst_conv subset_refl)
next
  case (Cons e cat)
  obtain title desc cond xp where e: "e = (title, desc, cond, xp)" by (cases e) auto
  show ?case
  proof (cases "title \<notin> ach s \<and> cond s")
    case True
    let ?s1 = "s\<lparr>ach := insert title (ach s), total_xp := total_xp s + xp\<rparr>"
    obtain A X where "fst (achievements_loop cat ?s1 (newly @ [(title, xp)])) =
        ?s1\<lparr>ach := A, total_xp := X\<rparr>" "ach ?s1 \<subseteq> A"
      using Cons.IH by blast
    with True e show ?thesis by (intro exI [of _ A] exI [of _ X]) auto
  next
    case False
    with e Cons.IH [of s newly] show ?thesis by auto
  qed
qed

lemma achievements_loop_newly:
  "\<exists>m. snd (achievements_loop cat s newly) = newly @ m \<and>
       (\<forall>(t, x) \<in> set m. t \<notin> ach s \<and> t \<in> ach (fst (achievements_loop cat s newly))) \<and>
       total_xp (fst (achievements_loop cat s newly)) = total_xp s + sum_list (map snd m)"
proof (induction cat arbitrary: s newly)
  case Nil
  then show ?case by simp
next
  case (Cons e cat)
  obtain title desc cond xp where e: "e = (title, desc, cond, xp)" by (cases e) auto
  show ?case
  proof (cases "title \<notin> ach s \<and> cond s")
    case True
    let ?s1 = "s\<lparr>ach := insert title (ach s), total_xp := total_xp s + xp\<rparr>"
    let ?r = "achievements_loop cat ?s1 (newly @ [(title, xp)])"
    obtain m where m: "snd ?r = (newly @ [(title, xp)]) @ m"
        "\<forall>(t, x) \<in> set m. t \<notin> ach ?s1 \<and> t \<in> ach (fst ?r)"
        "total_xp (fst ?r) = total_xp ?s1 + sum_list (map snd m)"
      using Cons.IH by blast
    obtain A X where "fst ?r = ?s1\<lparr>ach := A, total_xp := X\<rparr>" "ach ?s1 \<subseteq> A"
      using achievements_loop_frame by blast
    then have "title \<in> ach (fst ?r)" by auto
    with m True e show ?thesis
      by (intro exI [of _ "(title, xp) # m"]) auto
  next
    case False
    with e Cons.IH [of s newly] show ?thesis by auto
  qed
qed

text \<open>
  A catalogue is stable if none of its conditions reads the two fields the evaluation
  itself writes.
\<close>

lemma achievements_loop_settled:
  assumes "\<forall>(t, d, c, x) \<in> set cat. \<forall>ss A X. c (ss\<lparr>ach := A, total_xp := X\<rparr>) = c ss"
  shows "\<forall>(t, d, c, x) \<in> set cat. t \<in> ach (fst (achievements_loop cat s newly)) \<or> \<not> c s"
  using assms
proof (induction cat arbitrary: s newly)
  case Nil
  then show ?case by simp
next
  case (Cons e cat)
  obtain title desc cond xp where e: "e = (title, desc, cond, xp)" by (cases e) auto
  have stable: "\<forall>(t, d, c, x) \<in> set cat. \<forall>ss A X. c (ss\<lparr>ach := A, total_xp := X\<rparr>) = c ss"
    using Cons.prems by simp
  show ?case
  proof (cases "title \<notin> ach s \<and> cond s")
    case True
    let ?s1 = "s\<lparr>ach := insert title (ach s), total_xp := total_xp s + xp\<rparr>"
    let ?r = "achievements_loop cat ?s1 (newly @ [(title, xp)])"
    obtain A X where "fst ?r = ?s1\<lparr>ach := A, total_xp := X\<rparr>" "ach ?s1 \<subseteq> A"
      using achievements_loop_frame by blast
    then have here: "title \<in> ach (fst ?r)" by auto
    have "\<forall>(t, d, c, x) \<in> set cat. t \<in> ach (fst ?r) \<or> \<not> c ?s1"
      using Cons.IH [OF stable] .
    moreover have "\<forall>(t, d, c, x) \<in> set cat. c ?s1 = c s"
      using stable by auto
    ultimately have "\<forall>(t, d, c, x) \<in> set cat. t \<in> ach (fst ?r) \<or> \<not> c s"
      by fastforce
    with here True e show ?thesis by simp
  next
    case False
    obtain A X where "fst (achievements_loop cat s newly) = s\<lparr>ach := A, total_xp := X\<rparr>"
        "ach s \<subseteq> A"
      using achievements_loop_frame by blast
    then have "title \<in> ach s \<Longrightarrow> title \<in> ach (fst (achievements_loop cat s newly))"
      by auto
    with False e Cons.IH [OF stable, of s newly] show ?thesis by auto
  qed
qed

lemma achievements_loop_idle:
  "\<forall>(t, d, c, x) \<in> set cat. t \<in> ach s \<or> \<not> c s \<Longrightarrow> achievements_loop cat s newly = (s, newly)"
  by (induction cat arbitrary: s newly) auto

lemma ACHIEVEMENTS_stable:
  "\<forall>(t, d, c, x) \<in> set ACHIEVEMENTS. \<forall>ss A X. c (ss\<lparr>ach := A, total_xp := X\<rparr>) = c ss"
  by (simp add: ACHIEVEMENTS_def)

lemma ACHIEVEMENTS_nonneg: "\<forall>(t, d, c, x) \<in> set ACHIEVEMENTS. 0 \<le> x"
  by (simp add: ACHIEVEMENTS_def)

lemma check_achievements_frame:
  "\<exists>A X. fst (check_achievements s) = s\<lparr>ach := A, total_xp := X\<rparr> \<and> ach s \<subseteq> A"
  unfolding check_achievements_def by (rule achievements_loop_frame)

lemma check_achievements_ach: "ach s \<subseteq> ach (fst (check_achievements s))"
proof -
  obtain A X where "fst (check_achievements s) = s\<lparr>ach := A, total_xp := X\<rparr>" "ach s \<subseteq> A"
    using check_achievements_frame by blast
  then show ?thesis by simp
qed

lemma check_achievements_newly:
  "(\<forall>(t, x) \<in> set (snd (check_achievements s)).
       t \<notin> ach s \<and> t \<in> ach (fst (check_achievements s))) \<and>
   total_xp (fst (check_achievements s)) =
     total_xp s + sum_list (map snd (snd (check_achievements s)))"
  using achievements_loop_newly [of ACHIEVEMENTS s "[]"]
  by (auto simp: check_achievements_def)

lemma achievements_loop_xp:
  "\<forall>(t, d, c, x) \<in> set cat. 0 \<le> x \<Longrightarrow>
     total_xp s \<le> total_xp (fst (achievements_loop cat s newly))"
proof (induction cat arbitrary: s newly)
  case Nil
  then show ?case by simp
next
  case (Cons e cat)
  obtain title desc cond xp where e: "e = (title, desc, cond, xp)" by (cases e) auto
  from Cons.prems e have xp: "0 \<le> xp" and rest: "\<forall>(t, d, c, x) \<in> set cat. 0 \<le> x"
    by simp_all
  show ?case
  proof (cases "title \<notin> ach s \<and> cond s")
    case True
    let ?s1 = "s\<lparr>ach := insert title (ach s), total_xp := total_xp s + xp\<rparr>"
    have "total_xp ?s1 \<le> total_xp (fst (achievements_loop cat ?s1 (newly @ [(title, xp)])))"
      using Cons.IH [OF rest] .
    with xp True e show ?thesis by simp
  next
    case False
    with e Cons.IH [OF rest, of s newly] show ?thesis by auto
  qed
qed

lemma check_achievements_xp: "total_xp s \<le> total_xp (fst (check_achievements s))"
  unfolding check_achievements_def
  by (rule achievements_loop_xp [OF ACHIEVEMENTS_nonneg])

lemma check_achievements_twice:
  "check_achievements (fst (check_achievements s)) = (fst (check_achievements s), [])"
proof -
  let ?s' = "fst (check_achievements s)"
  obtain A X where f: "?s' = s\<lparr>ach := A, total_xp := X\<rparr>"
    using check_achievements_frame by blast
  have "\<forall>(t, d, c, x) \<in> set ACHIEVEMENTS. t \<in> ach ?s' \<or> \<not> c s"
    unfolding check_achievements_def
    by (rule achievements_loop_settled [OF ACHIEVEMENTS_stable])
  moreover have "\<forall>(t, d, c, x) \<in> set ACHIEVEMENTS. c ?s' = c s"
    using ACHIEVEMENTS_stable f by auto
  ultimately have "\<forall>(t, d, c, x) \<in> set ACHIEVEMENTS. t \<in> ach ?s' \<or> \<not> c ?s'"
    by fastforce
  then show ?thesis
    unfolding check_achievements_def [of ?s'] by (rule achievements_loop_idle)
qed






section \<open>What each operation does to the XP ledger and to the unlocked set\<close>

lemma touch_daily_streak_ledger:
  "total_xp (touch_daily_streak today s) = total_xp s \<and> ach (touch_daily_streak today s) = ach s"
  by (simp add: touch_daily_streak_def Let_def split: option.splits)

lemma update_quests_ledger:
  assumes "update_quests today k inc b s = Inr s'"
  shows "total_xp s' = total_xp s \<and> ach s' = ach s"
proof -
  from assms have "k \<noteq> ''reset_date''"
    by (auto simp: update_quests_def Let_def)
  then obtain d w where
    "update_quests today k inc b s = Inr (s\<lparr>quests_daily_progress := d, quests_weekly_progress := w\<rparr>)"
    using update_quests_frame by blast
  with assms show ?thesis by auto
qed

lemma apply_answer_and_move_ledger:
  assumes "apply_answer_and_move today is_correct qidx s = Inr s'"
  shows "total_xp s' = total_xp s + (if is_correct then 5 else 0) \<and> ach s' = ach s"
proof (cases is_correct)
  case True
  obtain d w where "apply_answer_and_move today True qidx s =
     Inr (s\<lparr>quiz_map_position := min (quiz_map_position s + 1) (quiz_map_total_questions s + 1),
            quiz_map_correct := quiz_map_correct s + 1,
            quiz_map_anim := Fwd,
            total_xp := total_xp s + 5,
            correct_streak := correct_streak s + 1,
            correct_total := correct_total s + 1,
            quests_daily_progress := d, quests_weekly_progress := w,
            quiz_map_qindex := qidx + 1\<rparr>)"
    using apply_answer_and_move_correct by blast
  with True assms show ?thesis by auto
next
  case False
  with assms show ?thesis by (auto simp: apply_answer_and_move_wrong)
qed

lemma record_attempt_fields:
  "total_xp (record_attempt stamp xp s) = total_xp s"
  "ach (record_attempt stamp xp s) = ach s"
  "game_credits (record_attempt stamp xp s) = game_credits s"
  "coins (record_attempt stamp xp s) = coins s"
  "quiz_map_done (record_attempt stamp xp s) = quiz_map_done s"
  "last_quiz_pct (record_attempt stamp xp s) = last_quiz_pct s"
  "quiz_count (record_attempt stamp xp s) = quiz_count s + 1"
  "history (record_attempt stamp xp s) = history s @
     [\<lparr>h_date = stamp, h_subject = subject s, h_chapter = chapter s,
       h_score = quiz_map_correct s, h_total = quiz_map_total_questions s, h_xp = xp\<rparr>]"
  by (simp_all add: record_attempt_def Let_def)

text \<open>
  The accuracy of an attempt. Counters below \<open>2^53\<close> in magnitude are converted exactly,
  and for a counter of correct answers below \<open>2^46\<close> the product with \<^verbatim>\<open>100.0\<close> is exact
  as well: the accuracy is then the exact quotient, rounded once. The guarded divisor is
  never zero.
\<close>

lemma float_of_int_exact: "\<bar>n\<bar> < 2 ^ 53 \<Longrightarrow> float_of_int n = Inr (of_int n)"
  by (simp add: float_of_int_def round64_of_int_abs)

lemma gate_accuracy_exact:
  assumes "\<bar>c\<bar> < 2 ^ 46" and "t < 2 ^ 46"
  shows "gate_accuracy c t = Inr (round64 (100 * of_int c / of_int (max 1 t)))"
proof -
  have c: "float_of_int c = Inr (of_int c)"
    using assms(1) by (intro float_of_int_exact) simp
  have t: "float_of_int (max 1 t) = Inr (of_int (max 1 t))"
    using assms(2) by (intro float_of_int_exact) simp
  have "\<bar>100 * c\<bar> < 2 ^ 53" using assms(1) by simp
  then have "round64 (of_int (100 * c)) = Fl (of_int (100 * c))"
    by (rule round64_of_int_abs)
  then have m: "float_mul 100 (of_int c) = Fl (100 * of_int c)"
    by (simp add: float_mul_def)
  have nz: "(of_int (max 1 t) :: rat) \<noteq> 0" by simp
  show ?thesis
    unfolding gate_accuracy_def c t sum.case m py_truediv_def
    using nz by (simp only: if_False pyfloat.case)
qed

text \<open>
  The division never raises \<^verbatim>\<open>ZeroDivisionError\<close>: the gate raises only if a counter is
  too large to be converted.
\<close>

lemma gate_accuracy_no_zero_division: "gate_accuracy c t \<noteq> Inl ZeroDivisionError"
proof -
  have "ft \<noteq> 0" if "float_of_int (max 1 t) = Inr ft" for ft
  proof
    assume "ft = 0"
    with that have r: "round64 (of_int (max 1 t)) = Fl 0"
      by (auto simp: float_of_int_def split: pyfloat.splits)
    have pos: "(0::rat) < of_int (max 1 t)" by simp
    define q :: rat where "q = 2 powi (max (ilog2 (of_int (max 1 t)) - 52) (- 1074))"
    have qpos: "0 < q" by (simp add: q_def)
    have "(2::rat) powi 0 \<le> of_int (max 1 t)" by simp
    then have "0 \<le> ilog2 (of_int (max 1 t))" using ilog2_ge [OF pos] by blast
    then have "max (ilog2 (of_int (max 1 t)) - 52) (- 1074) \<le> ilog2 (of_int (max 1 t))" by simp
    then have "q \<le> 2 powi (ilog2 (of_int (max 1 t)))"
      unfolding q_def by (intro power_int_increasing) simp_all
    also have "\<dots> \<le> of_int (max 1 t)" using ilog2_bounds [OF pos] by simp
    finally have "of_int 1 \<le> (of_int (max 1 t) :: rat) / q"
      using qpos by (simp add: pos_le_divide_eq)
    then have "1 \<le> round_half_even (of_int (max 1 t) / q)" by (rule round_half_even_ge)
    then have "(0::rat) < of_int (round_half_even (of_int (max 1 t) / q))" by simp
    then have "0 < of_int (round_half_even (of_int (max 1 t) / q)) * q"
      using qpos by (intro mult_pos_pos)
    with r pos show False
      by (simp add: round64_def Let_def q_def split: if_splits)
  qed
  then show ?thesis
    by (auto simp: gate_accuracy_def py_truediv_def float_of_int_def
          split: sum.splits pyfloat.splits)
qed


text \<open>The accuracies of the attempts used as examples below.\<close>

lemma gate_accuracy_3_of_5: "gate_accuracy 3 5 = Inr (Fl 60)"
  using gate_accuracy_exact [of 3 5] round64_of_int [of 60] by simp


lemma round64_two_thirds: "round64 (200 / 3) = Fl (4691249611844267 / 70368744177664)"
proof -
  have "round64 (200 / 3) =
      Fl (of_int (round_half_even (200 / 3 / 2 powi (6 - 52))) * 2 powi (6 - 52))"
    by (rule round64_normal) simp_all
  moreover have "(200::rat) / 3 / 2 powi (6 - 52) = 14073748835532800 / 3"
    by (simp add: power_int_minus)
  moreover have "round_half_even (14073748835532800 / 3) = 4691249611844267"
    by (rule round_half_even_near) simp_all
  moreover have "(4691249611844267::rat) * 2 powi (6 - 52) = 4691249611844267 / 70368744177664"
    by (simp add: power_int_minus)
  ultimately show ?thesis by simp
qed

lemma gate_accuracy_2_of_3:
  "gate_accuracy 2 3 = Inr (Fl (4691249611844267 / 70368744177664))"
  using gate_accuracy_exact [of 2 3] round64_two_thirds by simp






text \<open>The three ways out of an open gate.\<close>

lemma check_completion_gate_raise:
  assumes "quiz_map_total_questions s \<le> quiz_map_qindex s" and "\<not> quiz_map_done s"
    and "gate_accuracy (quiz_map_correct s) (quiz_map_total_questions s) = Inl e"
  shows "check_completion_gate today stamp s = Inl e"
  using assms by (simp add: check_completion_gate_def)

lemma check_completion_gate_pass:
  assumes "quiz_map_total_questions s \<le> quiz_map_qindex s" and "\<not> quiz_map_done s"
    and "gate_accuracy (quiz_map_correct s) (quiz_map_total_questions s) = Inr a"
    and "float_ge a 80"
  shows "\<exists>d w. check_completion_gate today stamp s =
     Inr ((True, GreatJob a),
          fst (check_achievements (record_attempt stamp (25 + 5 * quiz_map_correct s)
            (s\<lparr>last_quiz_pct := a,
               quests_daily_progress := d, quests_weekly_progress := w,
               quiz_map_done := True, quiz_map_anim := Celebrate,
               total_xp := total_xp s + 25, game_credits := game_credits s + 1,
               coins := coins s + 5\<rparr>))))"
proof -
  obtain d w where "update_quests today ''daily_quizzes'' 1 True (s\<lparr>last_quiz_pct := a\<rparr>) =
      Inr (s\<lparr>last_quiz_pct := a, quests_daily_progress := d, quests_weekly_progress := w\<rparr>)"
    using update_quests_frame [of "''daily_quizzes''" today 1 True "s\<lparr>last_quiz_pct := a\<rparr>"]
    by auto
  with assms show ?thesis
    unfolding check_completion_gate_def
    by (intro exI [of _ d] exI [of _ w]) (simp add: Let_def split_beta)
qed

lemma check_completion_gate_fail:
  assumes "quiz_map_total_questions s \<le> quiz_map_qindex s" and "\<not> quiz_map_done s"
    and "gate_accuracy (quiz_map_correct s) (quiz_map_total_questions s) = Inr a"
    and "\<not> float_ge a 80"
  shows "\<exists>d w. check_completion_gate today stamp s =
     Inr ((False, NeedRetry a),
          fst (check_achievements (record_attempt stamp (5 * quiz_map_correct s)
            (s\<lparr>last_quiz_pct := a,
               quests_daily_progress := d, quests_weekly_progress := w\<rparr>))))"
proof -
  obtain d w where "update_quests today ''daily_quizzes'' 1 False (s\<lparr>last_quiz_pct := a\<rparr>) =
      Inr (s\<lparr>last_quiz_pct := a, quests_daily_progress := d, quests_weekly_progress := w\<rparr>)"
    using update_quests_frame [of "''daily_quizzes''" today 1 False "s\<lparr>last_quiz_pct := a\<rparr>"]
    by auto
  with assms show ?thesis
    unfolding check_completion_gate_def
    by (intro exI [of _ d] exI [of _ w]) (simp add: Let_def split_beta)
qed

lemma check_completion_gate_closed:
  "\<not> (quiz_map_total_questions s \<le> quiz_map_qindex s \<and> \<not> quiz_map_done s) \<Longrightarrow>
     check_completion_gate today stamp s = Inr ((False, NoMsg), s)"
  unfolding check_completion_gate_def by (rule if_not_P)

lemma check_completion_gate_ledger:
  assumes "check_completion_gate today stamp s = Inr (r, s')"
  shows "total_xp s \<le> total_xp s' \<and> ach s \<subseteq> ach s'"
proof (cases "quiz_map_total_questions s \<le> quiz_map_qindex s \<and> \<not> quiz_map_done s")
  case False
  with assms show ?thesis by (simp add: check_completion_gate_closed)
next
  case gate: True
  show ?thesis
  proof (cases "gate_accuracy (quiz_map_correct s) (quiz_map_total_questions s)")
    case (Inl e)
    with gate assms show ?thesis by (simp add: check_completion_gate_raise)
  next
    case (Inr a)
    show ?thesis
    proof (cases "float_ge a 80")
      case True
      then obtain s3 where s3: "check_completion_gate today stamp s =
          Inr ((True, GreatJob a), fst (check_achievements s3))"
          "total_xp s3 = total_xp s + 25" "ach s3 = ach s"
        using check_completion_gate_pass [of s a today stamp] gate Inr
        by (auto simp: record_attempt_fields)
      with assms check_achievements_xp [of s3] check_achievements_ach [of s3]
      show ?thesis by auto
    next
      case False
      then obtain s3 where s3: "check_completion_gate today stamp s =
          Inr ((False, NeedRetry a), fst (check_achievements s3))"
          "total_xp s3 = total_xp s" "ach s3 = ach s"
        using check_completion_gate_fail [of s a today stamp] gate Inr
        by (auto simp: record_attempt_fields)
      with assms check_achievements_xp [of s3] check_achievements_ach [of s3]
      show ?thesis by auto
    qed
  qed
qed

lemma grant_fold_ledger:
  "\<forall>q \<in> set qs. 0 \<le> reward_xp q \<Longrightarrow>
   total_xp s \<le> total_xp (fold (\<lambda>q ss. if q_id q \<in> ids
                   then ss\<lparr>total_xp := total_xp ss + reward_xp q,
                           coins := coins ss + reward_coins q\<rparr>
                   else ss) qs s) \<and>
   ach (fold (\<lambda>q ss. if q_id q \<in> ids
                   then ss\<lparr>total_xp := total_xp ss + reward_xp q,
                           coins := coins ss + reward_coins q\<rparr>
                   else ss) qs s) = ach s"
proof (induction qs arbitrary: s)
  case Nil
  then show ?case by simp
next
  case (Cons q qs)
  let ?s1 = "if q_id q \<in> ids
             then s\<lparr>total_xp := total_xp s + reward_xp q, coins := coins s + reward_coins q\<rparr>
             else s"
  from Cons.prems have "0 \<le> reward_xp q" and rest: "\<forall>q \<in> set qs. 0 \<le> reward_xp q"
    by simp_all
  then have "total_xp s \<le> total_xp ?s1" "ach ?s1 = ach s" by simp_all
  with Cons.IH [OF rest, of ?s1] show ?case by simp
qed

lemma grant_quest_rewards_ledger:
  "total_xp s \<le> total_xp (grant_quest_rewards ids s) \<and> ach (grant_quest_rewards ids s) = ach s"
  unfolding grant_quest_rewards_def
  by (rule grant_fold_ledger) (simp add: DAILY_QUESTS_def WEEKLY_QUESTS_def)

lemma sudoku_check_ledger:
  "sudoku_check cur usr s = Inr s' \<Longrightarrow> total_xp s \<le> total_xp s' \<and> ach s' = ach s"
  by (auto simp: sudoku_check_def Let_def split: if_splits)

lemma engine_step_ledger:
  assumes "engine_step op s = Inr s'"
  shows "total_xp s \<le> total_xp s' \<and> ach s \<subseteq> ach s'"
proof (cases op)
  case (TouchDailyStreak today)
  with assms show ?thesis using touch_daily_streak_ledger [of today s] by auto
next
  case (UpdateQuests today k inc b)
  with assms show ?thesis using update_quests_ledger [of today k inc b s s'] by auto
next
  case (ApplyAnswer today is_correct qidx)
  with assms show ?thesis
    using apply_answer_and_move_ledger [of today is_correct qidx s s'] by auto
next
  case (CheckGate today stamp)
  with assms obtain r where "check_completion_gate today stamp s = Inr (r, s')"
    by (auto split: sum.splits)
  then show ?thesis by (rule check_completion_gate_ledger)
next
  case CheckAchievements
  with assms show ?thesis
    using check_achievements_xp [of s] check_achievements_ach [of s] by auto
next
  case (GrantQuestRewards ids)
  with assms show ?thesis using grant_quest_rewards_ledger [of s ids] by auto
next
  case (SudokuCheck cur usr)
  with assms show ?thesis using sudoku_check_ledger [of cur usr s s'] by auto
next
  case (StartQuiz n)
  with assms show ?thesis by (auto simp: start_quiz_def)
next
  case RetryQuiz
  with assms show ?thesis by (auto simp: retry_quiz_def start_quiz_def)
qed

lemma engine_run_ledger:
  "engine_run ops s = Inr s' \<Longrightarrow> total_xp s \<le> total_xp s' \<and> ach s \<subseteq> ach s'"
proof (induction ops arbitrary: s)
  case Nil
  then show ?case by simp
next
  case (Cons op ops)
  then obtain s1 where s1: "engine_step op s = Inr s1" "engine_run ops s1 = Inr s'"
    by (auto split: sum.splits)
  from engine_step_ledger [OF s1(1)] Cons.IH [OF s1(2)] show ?case by auto
qed


section \<open>Achievement monotonicity\<close>

lemma check_achievements_again:
  "((\<lambda>ss. fst (check_achievements ss)) ^^ n) (fst (check_achievements s)) =
     fst (check_achievements s)"
  by (induction n) (simp_all add: check_achievements_twice)

text \<open>
  Claim C8. Unlocking is monotone and idempotent. An evaluation of the achievements keeps
  every unlocked title unlocked, and so does every run of engine operations; an
  evaluation at any later point of a session, after whatever operations, reports none of
  the titles that were unlocked before as newly unlocked. The XP an evaluation adds is the
  sum of the rewards of the titles it newly unlocks, each of them locked before and
  unlocked after. Evaluating again, any number of times, changes nothing and reports
  nothing: each achievement pays its reward once.
\<close>

theorem achievements_unlock_once:
  "ach s \<subseteq> ach (fst (check_achievements s)) \<and>
   (\<forall>ops s'. engine_run ops s = Inr s' \<longrightarrow>
      ach s \<subseteq> ach s' \<and> (\<forall>(t, x) \<in> set (snd (check_achievements s')). t \<notin> ach s)) \<and>
   (\<forall>(t, x) \<in> set (snd (check_achievements s)).
      t \<notin> ach s \<and> t \<in> ach (fst (check_achievements s))) \<and>
   total_xp (fst (check_achievements s)) =
     total_xp s + sum_list (map snd (snd (check_achievements s))) \<and>
   check_achievements (fst (check_achievements s)) = (fst (check_achievements s), []) \<and>
   ((\<lambda>ss. fst (check_achievements ss)) ^^ n) (fst (check_achievements s)) =
     fst (check_achievements s)"
proof (intro conjI allI impI)
  show "ach s \<subseteq> ach (fst (check_achievements s))"
    by (rule check_achievements_ach)
next
  fix ops s'
  assume run: "engine_run ops s = Inr s'"
  then show sub: "ach s \<subseteq> ach s'"
    using engine_run_ledger by blast
  show "\<forall>(t, x) \<in> set (snd (check_achievements s')). t \<notin> ach s"
    using check_achievements_newly [of s'] sub by fastforce
next
  show "\<forall>(t, x) \<in> set (snd (check_achievements s)).
      t \<notin> ach s \<and> t \<in> ach (fst (check_achievements s))"
    using check_achievements_newly [of s] by blast
next
  show "total_xp (fst (check_achievements s)) =
     total_xp s + sum_list (map snd (snd (check_achievements s)))"
    using check_achievements_newly [of s] by blast
next
  show "check_achievements (fst (check_achievements s)) = (fst (check_achievements s), [])"
    by (rule check_achievements_twice)
next
  show "((\<lambda>ss. fst (check_achievements ss)) ^^ n) (fst (check_achievements s)) =
     fst (check_achievements s)"
    by (rule check_achievements_again)
qed

theorem achievements_unlock_once_witness:
  "check_achievements ((init_state 0)\<lparr>quiz_count := 1\<rparr>) =
     ((init_state 0)\<lparr>quiz_count := 1, ach := {''First Steps''}, total_xp := 25\<rparr>,
      [(''First Steps'', 25)]) \<and>
   engine_run [CheckAchievements, RetryQuiz] ((init_state 0)\<lparr>quiz_count := 1\<rparr>) =
     Inr ((init_state 0)\<lparr>quiz_count := 1, ach := {''First Steps''}, total_xp := 25\<rparr>) \<and>
   ''First Steps'' \<notin> ach ((init_state 0)\<lparr>quiz_count := 1\<rparr>) \<and>
   check_achievements ((init_state 0)\<lparr>quiz_count := 1, ach := {''First Steps''}, total_xp := 25\<rparr>) =
     ((init_state 0)\<lparr>quiz_count := 1, ach := {''First Steps''}, total_xp := 25\<rparr>, [])"
proof -
  let ?s = "(init_state 0)\<lparr>quiz_count := 1\<rparr>"
  have ev: "check_achievements ?s =
     ((init_state 0)\<lparr>quiz_count := 1, ach := {''First Steps''}, total_xp := 25\<rparr>,
      [(''First Steps'', 25)])"
    by (simp add: check_achievements_def ACHIEVEMENTS_def init_state_def)
  have run: "engine_run [CheckAchievements, RetryQuiz] ?s =
     Inr ((init_state 0)\<lparr>quiz_count := 1, ach := {''First Steps''}, total_xp := 25\<rparr>)"
    by (simp add: ev) (simp add: retry_quiz_def start_quiz_def init_state_def)
  have "''First Steps'' \<notin> ach ?s" by (simp add: init_state_def)
  with ev run achievements_unlock_once [of ?s 1] show ?thesis by simp
qed

section \<open>XP never decreases; rank and level are functions of it\<close>

text \<open>
  Claim C9. No operation of the engine lowers \<open>total_xp\<close>: not the scoring of an answer,
  the settlement at the gate, the unlocking of achievements, the granting of quest
  rewards, the Sudoku reward, nor any of the others, and hence no run of them. The session
  has no field for the rank or the level: what is displayed is computed from \<open>total_xp\<close>
  by \<open>compute_rank\<close> and \<open>compute_level\<close>, so two sessions with the same XP show the same
  rank and level.
\<close>

theorem total_xp_monotone:
  "(\<forall>op s'. engine_step op s = Inr s' \<longrightarrow> total_xp s \<le> total_xp s') \<and>
   (\<forall>ops s'. engine_run ops s = Inr s' \<longrightarrow> total_xp s \<le> total_xp s') \<and>
   format_rank_level s = (compute_rank (total_xp s), compute_level (total_xp s)) \<and>
   (\<forall>s'. total_xp s' = total_xp s \<longrightarrow> format_rank_level s' = format_rank_level s)"
  using engine_step_ledger [of _ s] engine_run_ledger [of _ s]
  by (auto simp: format_rank_level_def)

theorem total_xp_monotone_witness:
  "\<exists>s'. engine_run [ApplyAnswer 0 True 0, ApplyAnswer 0 False 1, GrantQuestRewards [''q_daily_quiz''],
                     CheckAchievements]
            ((init_state 0)\<lparr>quiz_map_total_questions := 2\<rparr>) = Inr s' \<and>
        total_xp ((init_state 0)\<lparr>quiz_map_total_questions := 2\<rparr>) \<le> total_xp s' \<and>
        total_xp s' = 25 \<and>
        format_rank_level s' = (''Rookie'', 1)"
proof -
  let ?s = "(init_state 0)\<lparr>quiz_map_total_questions := 2\<rparr>"
  let ?ops = "[ApplyAnswer 0 True 0, ApplyAnswer 0 False 1, GrantQuestRewards [''q_daily_quiz''],
               CheckAchievements]"
  obtain s' where run: "engine_run ?ops ?s = Inr s'" and xp: "total_xp s' = 25"
    by (simp add: apply_answer_and_move_def update_quests_def dict_get_def Let_def
          grant_quest_rewards_def DAILY_QUESTS_def WEEKLY_QUESTS_def
          check_achievements_def ACHIEVEMENTS_def init_state_def)
  from total_xp_monotone [of ?s] run have "total_xp ?s \<le> total_xp s'" by blast
  moreover from total_xp_monotone [of s'] xp
  have "format_rank_level s' = (compute_rank 25, compute_level 25)" by simp
  moreover have "compute_rank 25 = ''Rookie''" "compute_level 25 = 1"
    by (simp_all add: compute_rank_def compute_level_def RANKS_def LEVEL_XP_def)
  ultimately show ?thesis using run xp by auto
qed

section \<open>The accuracy gate\<close>








section \<open>Settlement is repeated after a failed attempt\<close>

text \<open>
  After a pass the completion flag closes the gate: a second call returns the empty
  message and leaves the session as it is.
\<close>

lemma check_gate_after_pass:
  assumes "check_completion_gate today stamp s = Inr ((True, msg), s')"
  shows "check_completion_gate today' stamp' s' = Inr ((False, NoMsg), s')"
proof -
  have gate: "quiz_map_total_questions s \<le> quiz_map_qindex s" "\<not> quiz_map_done s"
    using assms check_completion_gate_closed [of s today stamp] by auto
  obtain a where acc: "gate_accuracy (quiz_map_correct s) (quiz_map_total_questions s) = Inr a"
    using assms check_completion_gate_raise [OF gate, of _ today stamp]
    by (cases "gate_accuracy (quiz_map_correct s) (quiz_map_total_questions s)") auto
  have pass: "float_ge a 80"
    using assms check_completion_gate_fail [OF gate acc, of today stamp] by auto
  obtain s3 where s3: "check_completion_gate today stamp s =
        Inr ((True, GreatJob a), fst (check_achievements s3))" "quiz_map_done s3"
    using check_completion_gate_pass [OF gate acc pass, of today stamp]
    by (auto simp: record_attempt_fields)
  obtain A X where "fst (check_achievements s3) = s3\<lparr>ach := A, total_xp := X\<rparr>"
    using check_achievements_frame by blast
  with s3 assms have "quiz_map_done s'" by auto
  then show ?thesis by (simp add: check_completion_gate_closed)
qed

text \<open>
  Claim C2 asks that a second call of the gate on the same attempt settles nothing again,
  whether the first call passed or failed. The failing branch never sets the completion
  flag, so the gate stays open: on a finished attempt with 3 of 5 correct, in a session
  with 3 quizzes on record, the first call appends one history entry and counts a fourth
  quiz; the second call appends the same entry again, counts a fifth quiz and thereby
  unlocks an achievement that pays 50 XP.
\<close>

theorem check_gate_twice_after_fail:
  "map_sum id history
     (engine_run [CheckGate 0 ''2025-01-01'']
        ((init_state 0)\<lparr>quiz_count := 3, quiz_map_total_questions := 5, quiz_map_correct := 3,
                         quiz_map_qindex := 5, ach := {''First Steps''}\<rparr>)) =
     Inr [\<lparr>h_date = ''2025-01-01'', h_subject = '''', h_chapter = '''',
           h_score = 3, h_total = 5, h_xp = 15\<rparr>] \<and>
   map_sum id history
     (engine_run [CheckGate 0 ''2025-01-01'', CheckGate 0 ''2025-01-01'']
        ((init_state 0)\<lparr>quiz_count := 3, quiz_map_total_questions := 5, quiz_map_correct := 3,
                         quiz_map_qindex := 5, ach := {''First Steps''}\<rparr>)) =
     Inr [\<lparr>h_date = ''2025-01-01'', h_subject = '''', h_chapter = '''',
           h_score = 3, h_total = 5, h_xp = 15\<rparr>,
          \<lparr>h_date = ''2025-01-01'', h_subject = '''', h_chapter = '''',
           h_score = 3, h_total = 5, h_xp = 15\<rparr>] \<and>
   map_sum id quiz_count
     (engine_run [CheckGate 0 ''2025-01-01'']
        ((init_state 0)\<lparr>quiz_count := 3, quiz_map_total_questions := 5, quiz_map_correct := 3,
                         quiz_map_qindex := 5, ach := {''First Steps''}\<rparr>)) = Inr 4 \<and>
   map_sum id quiz_count
     (engine_run [CheckGate 0 ''2025-01-01'', CheckGate 0 ''2025-01-01'']
        ((init_state 0)\<lparr>quiz_count := 3, quiz_map_total_questions := 5, quiz_map_correct := 3,
                         quiz_map_qindex := 5, ach := {''First Steps''}\<rparr>)) = Inr 5 \<and>
   map_sum id total_xp
     (engine_run [CheckGate 0 ''2025-01-01'']
        ((init_state 0)\<lparr>quiz_count := 3, quiz_map_total_questions := 5, quiz_map_correct := 3,
                         quiz_map_qindex := 5, ach := {''First Steps''}\<rparr>)) = Inr 0 \<and>
   map_sum id total_xp
     (engine_run [CheckGate 0 ''2025-01-01'', CheckGate 0 ''2025-01-01'']
        ((init_state 0)\<lparr>quiz_count := 3, quiz_map_total_questions := 5, quiz_map_correct := 3,
                         quiz_map_qindex := 5, ach := {''First Steps''}\<rparr>)) = Inr 50"
  by (simp add: check_completion_gate_def gate_accuracy_3_of_5 float_ge_def update_quests_def
        record_attempt_def check_achievements_def ACHIEVEMENTS_def dict_get_def
        init_state_def Let_def)


section \<open>The settlement counts the quiz\<close>

lemma update_quests_quiz_completed:
  assumes "week_start (quests_weekly_progress s) = Some ws"
  shows "\<exists>s1. update_quests today ''daily_quizzes'' 1 high s = Inr s1 \<and>
      s1 = s\<lparr>quests_daily_progress := quests_daily_progress s1,
              quests_weekly_progress := quests_weekly_progress s1\<rparr> \<and>
      dict_get (daily_counts (quests_daily_progress s1)) ''daily_quizzes'' 0 =
        (if reset_date (quests_daily_progress s) \<noteq> today then 0
         else dict_get (daily_counts (quests_daily_progress s)) ''daily_quizzes'' 0) + 1 \<and>
      weekly_quizzes (quests_weekly_progress s1) =
        (if today - ws \<ge> 7 then 0 else weekly_quizzes (quests_weekly_progress s)) + 1 \<and>
      weekly_80plus (quests_weekly_progress s1) =
        (if today - ws \<ge> 7 then 0 else weekly_80plus (quests_weekly_progress s)) +
        (if high then 1 else 0)"
  using assms
  by (simp add: update_quests_def Let_def dict_get_update) (simp add: dict_get_def)

text \<open>
  The gate passes the flag \<^verbatim>\<open>accuracy >= 80.0\<close> to the quest counters: every settlement
  counts one quiz for the day and for the week, and a pass counts one high-accuracy quiz
  for the week.
\<close>

lemma check_gate_counts_quiz:
  assumes "quiz_map_total_questions s \<le> quiz_map_qindex s" and "\<not> quiz_map_done s"
    and "gate_accuracy (quiz_map_correct s) (quiz_map_total_questions s) = Inr a"
    and "week_start (quests_weekly_progress s) = Some ws"
  shows "\<exists>msg s'.
     check_completion_gate today stamp s = Inr ((float_ge a 80, msg), s') \<and>
     dict_get (daily_counts (quests_daily_progress s')) ''daily_quizzes'' 0 =
       (if reset_date (quests_daily_progress s) \<noteq> today then 0
        else dict_get (daily_counts (quests_daily_progress s)) ''daily_quizzes'' 0) + 1 \<and>
     weekly_quizzes (quests_weekly_progress s') =
       (if today - ws \<ge> 7 then 0 else weekly_quizzes (quests_weekly_progress s)) + 1 \<and>
     weekly_80plus (quests_weekly_progress s') =
       (if today - ws \<ge> 7 then 0 else weekly_80plus (quests_weekly_progress s)) +
       (if float_ge a 80 then 1 else 0)"
proof -
  let ?s0 = "s\<lparr>last_quiz_pct := a\<rparr>"
  have ws: "week_start (quests_weekly_progress ?s0) = Some ws"
    using assms(4) by simp
  obtain s1 where s1: "update_quests today ''daily_quizzes'' 1 (float_ge a 80) ?s0 = Inr s1"
      "dict_get (daily_counts (quests_daily_progress s1)) ''daily_quizzes'' 0 =
        (if reset_date (quests_daily_progress s) \<noteq> today then 0
         else dict_get (daily_counts (quests_daily_progress s)) ''daily_quizzes'' 0) + 1"
      "weekly_quizzes (quests_weekly_progress s1) =
        (if today - ws \<ge> 7 then 0 else weekly_quizzes (quests_weekly_progress s)) + 1"
      "weekly_80plus (quests_weekly_progress s1) =
        (if today - ws \<ge> 7 then 0 else weekly_80plus (quests_weekly_progress s)) +
        (if float_ge a 80 then 1 else 0)"
    using update_quests_quiz_completed [OF ws, of today "float_ge a 80"] by auto
  have through: "quests_daily_progress (fst (check_achievements (record_attempt stamp xp x))) =
        quests_daily_progress x \<and>
      quests_weekly_progress (fst (check_achievements (record_attempt stamp xp x))) =
        quests_weekly_progress x" for xp x
  proof -
    obtain A X where "fst (check_achievements (record_attempt stamp xp x)) =
        (record_attempt stamp xp x)\<lparr>ach := A, total_xp := X\<rparr>"
      using check_achievements_frame by blast
    then show ?thesis by (simp add: record_attempt_def Let_def)
  qed
  show ?thesis
  proof (cases "float_ge a 80")
    case True
    let ?s' = "fst (check_achievements (record_attempt stamp (25 + 5 * quiz_map_correct s1)
        (s1\<lparr>quiz_map_done := True, quiz_map_anim := Celebrate, total_xp := total_xp s1 + 25,
            game_credits := game_credits s1 + 1, coins := coins s1 + 5\<rparr>)))"
    from assms(1,2,3) s1(1) True
    have "check_completion_gate today stamp s = Inr ((True, GreatJob a), ?s')"
      unfolding check_completion_gate_def
      by (simp add: Let_def split_beta)
    with s1(2,3,4) True through show ?thesis
      by (intro exI [of _ "GreatJob a"] exI [of _ ?s']) simp
  next
    case False
    let ?s' = "fst (check_achievements (record_attempt stamp (5 * quiz_map_correct s1) s1))"
    from assms(1,2,3) s1(1) False
    have "check_completion_gate today stamp s = Inr ((False, NeedRetry a), ?s')"
      unfolding check_completion_gate_def
      by (simp add: Let_def split_beta)
    with s1(2,3,4) False through show ?thesis
      by (intro exI [of _ "NeedRetry a"] exI [of _ ?s']) simp
  qed
qed

section \<open>The parser: what the searches find\<close>

lemma split_first_Some:
  "split_first pat s = Some (before, after) \<Longrightarrow> s = before @ pat @ after"
proof (induction s arbitrary: before)
  case Nil
  then show ?case by (simp split: if_splits)
next
  case (Cons c cs)
  show ?case
  proof (cases "prefix pat (c # cs)")
    case True
    with Cons.prems have "before = []" "after = drop (length pat) (c # cs)"
      by simp_all
    moreover from True have "c # cs = pat @ drop (length pat) (c # cs)"
      by (metis append_eq_conv_conj prefix_def)
    ultimately show ?thesis by simp
  next
    case False
    with Cons.prems obtain b where "split_first pat cs = Some (b, after)" "before = c # b"
      by (auto split: option.splits)
    with Cons.IH [of b] show ?thesis by simp
  qed
qed

lemma split_first_sublist: "split_first pat s = Some (before, after) \<Longrightarrow> sublist pat s"
  by (auto dest: split_first_Some simp: sublist_def)

lemma search_quiz_body_Some:
  assumes "search_quiz_body text = Some body"
  shows "\<exists>before after. text = before @ QUIZ_START @ body @ QUIZ_END @ after"
proof -
  from assms obtain b r where 1: "split_first QUIZ_START text = Some (b, r)"
    by (auto simp: search_quiz_body_def split: option.splits)
  with assms obtain a where 2: "split_first QUIZ_END r = Some (body, a)"
    by (auto simp: search_quiz_body_def split: option.splits)
  from split_first_Some [OF 1] split_first_Some [OF 2] show ?thesis by auto
qed

text \<open>A text that lacks one of the outer delimiters parses to the empty sequence.\<close>

lemma parse_without_delimiters:
  assumes "\<not> sublist QUIZ_START text \<or> \<not> sublist QUIZ_END text"
  shows "parse_quiz_block text = []"
proof (cases "search_quiz_body text")
  case None
  then show ?thesis by (simp add: parse_quiz_block_def)
next
  case (Some body)
  then obtain b a where "text = b @ QUIZ_START @ body @ QUIZ_END @ a"
    using search_quiz_body_Some by blast
  then have "sublist QUIZ_START text" "sublist QUIZ_END text"
    by (metis sublist_appendI sublist_order.order_refl append.assoc)+
  with assms show ?thesis by simp
qed

lemma search_bol_Some:
  "search_bol m bol s = Some g \<Longrightarrow> \<exists>a b. s = a @ b \<and> m b = Some g"
proof (induction s arbitrary: bol)
  case Nil
  then show ?case by (auto split: if_splits)
next
  case (Cons c cs)
  show ?case
  proof (cases "bol \<and> m (c # cs) \<noteq> None")
    case True
    with Cons.prems have "m (c # cs) = Some g" by auto
    then show ?thesis by (intro exI [of _ "[]"] exI [of _ "c # cs"]) simp
  next
    case False
    with Cons.prems have "search_bol m (c = NL) cs = Some g"
      by (auto split: if_splits option.splits)
    then obtain a b where "cs = a @ b" "m b = Some g" using Cons.IH by blast
    then show ?thesis by (intro exI [of _ "c # a"] exI [of _ b]) simp
  qed
qed

lemma match_labelled_sublist: "match_labelled key s = Some g \<Longrightarrow> sublist key s"
proof -
  assume "match_labelled key s = Some g"
  then have "prefix key (dropWhile is_space s)"
    by (auto simp: match_labelled_def Let_def split: if_splits)
  then obtain zs where "dropWhile is_space s = key @ zs" by (auto simp: prefix_def)
  then have "s = takeWhile is_space s @ key @ zs"
    by (metis takeWhile_dropWhile_id)
  then show ?thesis by (auto simp: sublist_def)
qed

lemma search_labelled_sublist:
  assumes "search_bol (match_labelled key) bol s = Some g"
  shows "sublist key s"
proof -
  from search_bol_Some [OF assms]
  obtain a b where "s = a @ b" "match_labelled key b = Some g" by blast
  from match_labelled_sublist [OF this(2)] have "sublist key b" .
  with \<open>s = a @ b\<close> show ?thesis by (simp add: sublist_append)
qed

text \<open>A sub-block in which a label does not occur at all is dropped.\<close>

lemma parse_question_without_label:
  assumes "\<not> sublist (py ''Question:'') qb \<or> (\<exists>k \<in> set option_keys. \<not> sublist (option_label k) qb)"
  shows "parse_question qb = None"
proof -
  have none: "\<not> sublist key qb \<Longrightarrow> search_bol (match_labelled key) True qb = None" for key
    using search_labelled_sublist [of key True qb] by (cases "search_bol (match_labelled key) True qb") auto
  from assms show ?thesis
  proof
    assume "\<not> sublist (py ''Question:'') qb"
    from none [OF this] show ?thesis by (simp add: parse_question_def Let_def)
  next
    assume "\<exists>k \<in> set option_keys. \<not> sublist (option_label k) qb"
    then obtain k where "k \<in> set option_keys" "search_bol (match_labelled (option_label k)) True qb = None"
      using none by blast
    then show ?thesis
      by (auto simp: parse_question_def Let_def option_keys_def)
  qed
qed

lemma match_correct_letter:
  assumes "match_correct s = Some c"
  shows "c = of_char CHR ''A'' \<or> c = of_char CHR ''B'' \<or> c = of_char CHR ''C''"
proof -
  let ?d = "dropWhile is_space (drop (length (py ''[CORRECT:'')) (dropWhile is_space s))"
  from assms have inner:
    "(case ?d of
        [] \<Rightarrow> None
      | c' # u \<Rightarrow>
          if of_char CHR ''A'' \<le> c' \<and> c' \<le> of_char CHR ''C'' then
            (case dropWhile is_space u of
               [] \<Rightarrow> None
             | x # v \<Rightarrow> if x = of_char CHR '']'' then Some c' else None)
          else None) = Some c"
    unfolding match_correct_def Let_def by (simp split: if_splits)
  then obtain c' u where d: "?d = c' # u"
    by (cases ?d) simp_all
  with inner have range: "of_char CHR ''A'' \<le> c'" "c' \<le> of_char CHR ''C''"
    and tail: "(case dropWhile is_space u of
               [] \<Rightarrow> None
             | x # v \<Rightarrow> if x = of_char CHR '']'' then Some c' else None) = Some c"
    by (simp_all split: if_splits)
  from tail have "c = c'"
    by (cases "dropWhile is_space u") (simp_all split: if_splits)
  with range show ?thesis by simp arith
qed

lemma search_correct_letter:
  assumes "search_bol match_correct bol s = Some c"
  shows "c = of_char CHR ''A'' \<or> c = of_char CHR ''B'' \<or> c = of_char CHR ''C''"
proof -
  from search_bol_Some [OF assms] obtain a b where "match_correct b = Some c" by blast
  then show ?thesis by (rule match_correct_letter)
qed

text \<open>Every record the parser produces is complete.\<close>

lemma parse_question_record:
  assumes "parse_question qb = Some r"
  shows "question r \<noteq> [] \<and> length (options r) = 3 \<and> (\<forall>opt \<in> set (options r). opt \<noteq> []) \<and>
         answer r \<in> set (options r)"
proof (cases "search_bol match_correct True qb")
  case None
  with assms show ?thesis
    by (auto simp: parse_question_def Let_def option_keys_def dict_get_def split: if_splits)
next
  case (Some c)
  then have "c = 65 \<or> c = 66 \<or> c = 67"
    using search_correct_letter [of True qb c] by simp
  with Some assms show ?thesis
    by (auto simp: parse_question_def Let_def option_keys_def dict_get_def split: if_splits)
qed

lemma parse_quiz_block_records:
  assumes "r \<in> set (parse_quiz_block text)"
  shows "question r \<noteq> [] \<and> length (options r) = 3 \<and> (\<forall>opt \<in> set (options r). opt \<noteq> []) \<and>
         answer r \<in> set (options r)"
proof -
  from assms obtain qb where "parse_question qb = Some r"
    by (auto simp: parse_quiz_block_def map_filter_def split: if_splits option.splits)
  then show ?thesis by (rule parse_question_record)
qed

lemma validated_at_most_five:
  assumes "validate_quiz_block text"
  shows "length (parse_quiz_block text) \<le> 5"
proof -
  from assms obtain body where body: "search_quiz_body text = Some body"
      "length (findall_questions body) = 5" "text \<noteq> []"
    by (auto simp: validate_quiz_block_def Let_def split: if_splits option.splits)
  have "length (List.map_filter parse_question (findall_questions body)) \<le>
        length (findall_questions body)"
    by (simp add: map_filter_def)
  with body show ?thesis by (simp add: parse_quiz_block_def)
qed

section \<open>The default answer\<close>

text \<open>
  Claim C5. A sub-block whose correctness marker does not parse (no line matches the
  marker pattern) and that yields a record yields one whose answer is the text of option
  A, the first of its options; scoring resolves that answer to index 0.
\<close>

theorem default_answer_is_option_A:
  assumes "search_bol match_correct True qb = None"
    and "parse_question qb = Some r"
  shows "answer r = options r ! 0 \<and> correct_index r = 0"
  using assms
  by (auto simp: parse_question_def Let_def option_keys_def dict_get_def correct_index_def
        split: if_splits)


theorem default_answer_is_option_A_witness:
  "search_bol match_correct True
      (py ''Question: q\<newline>[A] x\<newline>[B] y\<newline>[C] z\<newline>[CORRECT: D]\<newline>'') = None \<and>
   parse_question
      (py ''Question: q\<newline>[A] x\<newline>[B] y\<newline>[C] z\<newline>[CORRECT: D]\<newline>'') =
     Some \<lparr>question = py ''q'', options = [py ''x'', py ''y'', py ''z''], answer = py ''x'',
           explanation = [], code = []\<rparr> \<and>
   answer \<lparr>question = py ''q'', options = [py ''x'', py ''y'', py ''z''], answer = py ''x'',
           explanation = [], code = []\<rparr> = py ''x'' \<and>
   correct_index \<lparr>question = py ''q'', options = [py ''x'', py ''y'', py ''z''], answer = py ''x'',
           explanation = [], code = []\<rparr> = 0"
proof -
  let ?qb = "py ''Question: q\<newline>[A] x\<newline>[B] y\<newline>[C] z\<newline>[CORRECT: D]\<newline>''"
  let ?r = "\<lparr>question = py ''q'', options = [py ''x'', py ''y'', py ''z''], answer = py ''x'',
           explanation = [], code = []\<rparr>"
  have marker: "search_bol match_correct True ?qb = None" by code_simp
  have parsed: "parse_question ?qb = Some ?r" by code_simp
  from default_answer_is_option_A [OF marker parsed] marker parsed
  show ?thesis by simp
qed

section \<open>Labels without text\<close>

text \<open>
  Claim C4 asks that a sub-block missing its question text or one of its option texts is
  dropped, so that 3 well-formed and 2 malformed sub-blocks give 3 records. A text that
  lacks an outer delimiter does parse to the empty sequence, and a sub-block in which a
  label does not occur is dropped (lemmas \<open>parse_without_delimiters\<close> and
  \<open>parse_question_without_label\<close>). But the white space the patterns allow behind a
  label runs across the end of the line: a label with nothing behind it on its line takes
  the next line as its text. In the text below the fourth sub-block has no question text
  and the fifth has no text for option C; both are kept, the fourth with the line of
  option A as its question and the fifth with the marker line as its option C.
\<close>

theorem parse_keeps_labels_without_text:
  "map question (parse_quiz_block
       (py ''[QUIZ START]\<newline>'' @
        py ''[QUESTION]\<newline>Question: q1\<newline>[A] a\<newline>[B] b\<newline>[C] c\<newline>[CORRECT: B]\<newline>[/QUESTION]\<newline>'' @
        py ''[QUESTION]\<newline>Question: q2\<newline>[A] a\<newline>[B] b\<newline>[C] c\<newline>[CORRECT: B]\<newline>[/QUESTION]\<newline>'' @
        py ''[QUESTION]\<newline>Question: q3\<newline>[A] a\<newline>[B] b\<newline>[C] c\<newline>[CORRECT: B]\<newline>[/QUESTION]\<newline>'' @
        py ''[QUESTION]\<newline>Question:\<newline>[A] a\<newline>[B] b\<newline>[C] c\<newline>[CORRECT: B]\<newline>[/QUESTION]\<newline>'' @
        py ''[QUESTION]\<newline>Question: q5\<newline>[A] a\<newline>[B] b\<newline>[C]\<newline>[CORRECT: B]\<newline>[/QUESTION]\<newline>'' @
        py ''[QUIZ END]'')) =
     [py ''q1'', py ''q2'', py ''q3'', py ''[A] a'', py ''q5''] \<and>
   map options (parse_quiz_block
       (py ''[QUIZ START]\<newline>'' @
        py ''[QUESTION]\<newline>Question: q1\<newline>[A] a\<newline>[B] b\<newline>[C] c\<newline>[CORRECT: B]\<newline>[/QUESTION]\<newline>'' @
        py ''[QUESTION]\<newline>Question: q2\<newline>[A] a\<newline>[B] b\<newline>[C] c\<newline>[CORRECT: B]\<newline>[/QUESTION]\<newline>'' @
        py ''[QUESTION]\<newline>Question: q3\<newline>[A] a\<newline>[B] b\<newline>[C] c\<newline>[CORRECT: B]\<newline>[/QUESTION]\<newline>'' @
        py ''[QUESTION]\<newline>Question:\<newline>[A] a\<newline>[B] b\<newline>[C] c\<newline>[CORRECT: B]\<newline>[/QUESTION]\<newline>'' @
        py ''[QUESTION]\<newline>Question: q5\<newline>[A] a\<newline>[B] b\<newline>[C]\<newline>[CORRECT: B]\<newline>[/QUESTION]\<newline>'' @
        py ''[QUIZ END]'')) =
     [[py ''a'', py ''b'', py ''c''], [py ''a'', py ''b'', py ''c''], [py ''a'', py ''b'', py ''c''],
      [py ''a'', py ''b'', py ''c''], [py ''a'', py ''b'', py ''[CORRECT: B]'']]"
  by code_simp

section \<open>The strict validator against the parser\<close>

text \<open>
  Claim C10 asks that a text the strict validator accepts parses to exactly 5 complete
  records. The records the parser produces are always complete, and an accepted text
  gives at most 5 of them (lemmas \<open>parse_quiz_block_records\<close> and
  \<open>validated_at_most_five\<close>). But the validator takes a single blank behind a label for
  its text, while the parser strips the text and drops the sub-block when nothing is
  left: the text below, whose fifth sub-block ends with the label of option C and a
  blank, is accepted and parses to 4 records.
\<close>

theorem validated_text_with_four_records:
  "validate_quiz_block
       (py ''[QUIZ START]\<newline>'' @
        py ''[QUESTION]\<newline>Question: q1\<newline>[A] a\<newline>[B] b\<newline>[C] c\<newline>[CORRECT: B]\<newline>[/QUESTION]\<newline>'' @
        py ''[QUESTION]\<newline>Question: q2\<newline>[A] a\<newline>[B] b\<newline>[C] c\<newline>[CORRECT: B]\<newline>[/QUESTION]\<newline>'' @
        py ''[QUESTION]\<newline>Question: q3\<newline>[A] a\<newline>[B] b\<newline>[C] c\<newline>[CORRECT: B]\<newline>[/QUESTION]\<newline>'' @
        py ''[QUESTION]\<newline>Question: q4\<newline>[A] a\<newline>[B] b\<newline>[C] c\<newline>[CORRECT: B]\<newline>[/QUESTION]\<newline>'' @
        py ''[QUESTION]\<newline>Question: q5\<newline>[A] a\<newline>[B] b\<newline>[CORRECT: B]\<newline>[C] \<newline>[/QUESTION]\<newline>'' @
        py ''[QUIZ END]'') \<and>
   map question (parse_quiz_block
       (py ''[QUIZ START]\<newline>'' @
        py ''[QUESTION]\<newline>Question: q1\<newline>[A] a\<newline>[B] b\<newline>[C] c\<newline>[CORRECT: B]\<newline>[/QUESTION]\<newline>'' @
        py ''[QUESTION]\<newline>Question: q2\<newline>[A] a\<newline>[B] b\<newline>[C] c\<newline>[CORRECT: B]\<newline>[/QUESTION]\<newline>'' @
        py ''[QUESTION]\<newline>Question: q3\<newline>[A] a\<newline>[B] b\<newline>[C] c\<newline>[CORRECT: B]\<newline>[/QUESTION]\<newline>'' @
        py ''[QUESTION]\<newline>Question: q4\<newline>[A] a\<newline>[B] b\<newline>[C] c\<newline>[CORRECT: B]\<newline>[/QUESTION]\<newline>'' @
        py ''[QUESTION]\<newline>Question: q5\<newline>[A] a\<newline>[B] b\<newline>[CORRECT: B]\<newline>[C] \<newline>[/QUESTION]\<newline>'' @
        py ''[QUIZ END]'')) =
     [py ''q1'', py ''q2'', py ''q3'', py ''q4'']"
  by code_simp


end
